theory Spec2Isabelle
  imports Complex_Main
begin

section \<open>Values of the Python program\<close>

text \<open>
  The exceptions that the code of \<^verbatim>\<open>weather_etl.py\<close> and the libraries it calls can raise.
  The first five are the classes of \<^verbatim>\<open>requests.exceptions\<close> that the \<^verbatim>\<open>retry\<close> decorator names;
  \<open>HTTPError\<close> carries the status code. \<open>InvalidURL\<close> and \<open>JSONDecodeError\<close> are
  \<^verbatim>\<open>requests\<close> exceptions outside that tuple. \<open>MySQLError\<close> stands for
  \<^verbatim>\<open>mysql.connector.Error\<close> and its subclasses.
\<close>

datatype exn =
    ConnectTimeout
  | HTTPError nat
  | ReadTimeout
  | Timeout
  | ConnectionError
  | InvalidURL
  | JSONDecodeError
  | KeyError string
  | TypeError
  | AttributeError
  | OverflowError
  | MySQLError

text \<open>
  A parsed JSON document, as \<^verbatim>\<open>response.json()\<close> returns it: Python's \<^verbatim>\<open>None\<close>, \<^verbatim>\<open>bool\<close>,
  number, \<^verbatim>\<open>str\<close>, \<^verbatim>\<open>list\<close> and \<^verbatim>\<open>dict\<close>. A dict is the list of its items, in order.
\<close>

datatype json =
    JNull
  | JBool bool
  | JNum real
  | JStr string
  | JArr "json list"
  | JObj "(string \<times> json) list"

text \<open>\<^verbatim>\<open>x[k]\<close> for a string key: only a dict has string keys.\<close>

fun getitem :: "json \<Rightarrow> string \<Rightarrow> exn + json" where
  "getitem (JObj kvs) k = (case map_of kvs k of None \<Rightarrow> Inl (KeyError k) | Some v \<Rightarrow> Inr v)"
| "getitem _ k = Inl TypeError"

text \<open>\<^verbatim>\<open>x.get(k, default)\<close>: only a dict has the method.\<close>

fun dict_get :: "json \<Rightarrow> string \<Rightarrow> json \<Rightarrow> exn + json" where
  "dict_get (JObj kvs) k d = Inr (case map_of kvs k of None \<Rightarrow> d | Some v \<Rightarrow> v)"
| "dict_get _ k d = Inl AttributeError"

text \<open>
  \<^verbatim>\<open>for x in v\<close>: a list gives its elements, a dict its keys, a string its characters
  (here its bytes); nothing else is iterable.
\<close>

fun py_iter :: "json \<Rightarrow> exn + json list" where
  "py_iter (JArr xs) = Inr xs"
| "py_iter (JObj kvs) = Inr (map (\<lambda>kv. JStr (fst kv)) kvs)"
| "py_iter (JStr s) = Inr (map (\<lambda>c. JStr [c]) s)"
| "py_iter _ = Inl TypeError"

text \<open>\<^verbatim>\<open>if data:\<close> Python's truth value.\<close>

fun truthy :: "json \<Rightarrow> bool" where
  "truthy JNull = False"
| "truthy (JBool b) = b"
| "truthy (JNum x) = (x \<noteq> 0)"
| "truthy (JStr s) = (s \<noteq> [])"
| "truthy (JArr xs) = (xs \<noteq> [])"
| "truthy (JObj kvs) = (kvs \<noteq> [])"

text \<open>The \<^verbatim>\<open>mode\<close> argument: the callers pass the literals \<^verbatim>\<open>"forecast"\<close> and \<^verbatim>\<open>"history"\<close>.\<close>

datatype mode = Forecast | History

fun upper :: "mode \<Rightarrow> string" where
  "upper Forecast = ''FORECAST''"
| "upper History = ''HISTORY''"

text \<open>The dict \<^verbatim>\<open>row\<close> that \<^verbatim>\<open>extract_and_write\<close> builds and \<^verbatim>\<open>insert_record\<close> reads.\<close>

record row =
  Date :: json
  Location :: json
  Country :: json
  Min_Temp :: json
  Max_Temp :: json
  Humidity :: json
  Air_Quality :: json
  Type :: json

section \<open>The store\<close>

text \<open>
  A value of a column. The connector turns \<^verbatim>\<open>None\<close> into \<open>NULL\<close>, a bool into 1 or 0,
  and refuses a list or a dict. The model keeps a value as it was sent: the server's
  coercion to the column type (\<open>DATE\<close>, \<open>FLOAT\<close>, \<open>VARCHAR\<close>) and its collation are not
  modelled.
\<close>

datatype sqlval = Null | Num real | Str string

fun to_mysql :: "json \<Rightarrow> sqlval option" where
  "to_mysql JNull = Some Null"
| "to_mysql (JBool b) = Some (Num (if b then 1 else 0))"
| "to_mysql (JNum x) = Some (Num x)"
| "to_mysql (JStr s) = Some (Str s)"
| "to_mysql (JArr xs) = None"
| "to_mysql (JObj kvs) = None"

text \<open>
  A row of \<^verbatim>\<open>weather_records\<close>, with the columns of \<^verbatim>\<open>create_table\<close> that the program
  writes. The surrogate \<^verbatim>\<open>id\<close> is not modelled: the program never reads it.
\<close>

record weather_record =
  date :: sqlval
  location :: sqlval
  country :: sqlval
  min_temp :: sqlval
  max_temp :: sqlval
  humidity :: sqlval
  air_quality :: sqlval
  rtype :: sqlval

text \<open>
  \<^verbatim>\<open>UNIQUE KEY unique_entry (date, location, type)\<close>: a new row collides with a stored one
  when the three columns are equal. The columns are nullable, and in MySQL a unique
  index admits any number of rows with \<open>NULL\<close> in a key column: \<open>NULL\<close> equals nothing.
\<close>

definition duplicate_key :: "weather_record \<Rightarrow> weather_record \<Rightarrow> bool" where
  "duplicate_key new old \<longleftrightarrow>
     date new \<noteq> Null \<and> location new \<noteq> Null \<and> rtype new \<noteq> Null \<and>
     date old = date new \<and> location old = location new \<and> rtype old = rtype new"

text \<open>The \<^verbatim>\<open>ON DUPLICATE KEY UPDATE\<close> clause: four columns take the new values.\<close>

definition on_duplicate_key_update :: "weather_record \<Rightarrow> weather_record \<Rightarrow> weather_record" where
  "on_duplicate_key_update new old =
     old\<lparr>min_temp := min_temp new, max_temp := max_temp new,
         humidity := humidity new, air_quality := air_quality new\<rparr>"

text \<open>
  \<^verbatim>\<open>INSERT INTO weather_records ... ON DUPLICATE KEY UPDATE ...\<close>: the new table and the
  affected-rows count that \<^verbatim>\<open>cursor.rowcount\<close> reads afterwards: 1 for a row inserted, 2 for
  a row updated, 0 for a row that already held the new values (the connector does not
  set \<^verbatim>\<open>CLIENT_FOUND_ROWS\<close> by default).
\<close>

definition insert_on_duplicate_key_update ::
    "weather_record list \<Rightarrow> weather_record \<Rightarrow> weather_record list \<times> nat" where
  "insert_on_duplicate_key_update tbl new =
     (case find (duplicate_key new) tbl of
        None \<Rightarrow> (tbl @ [new], 1)
      | Some old \<Rightarrow>
          (map (\<lambda>r. if duplicate_key new r then on_duplicate_key_update new r else r) tbl,
           if on_duplicate_key_update new old = old then 0 else 2))"

section \<open>Calendar dates\<close>

text \<open>
  \<^verbatim>\<open>datetime.date\<close>, with the proleptic Gregorian ordinal that CPython's \<^verbatim>\<open>datetime\<close>
  computes with: \<^verbatim>\<open>date - timedelta(days=i)\<close> is \<^verbatim>\<open>fromordinal(toordinal() - i)\<close>, and an
  \<^verbatim>\<open>OverflowError\<close> outside the years 1 to 9999.
\<close>

record pydate =
  year :: int
  month :: int
  day :: int

definition is_leap :: "int \<Rightarrow> bool" where
  "is_leap y \<longleftrightarrow> y mod 4 = 0 \<and> (y mod 100 \<noteq> 0 \<or> y mod 400 = 0)"

definition days_before_year :: "int \<Rightarrow> int" where
  "days_before_year y = (let z = y - 1 in z * 365 + z div 4 - z div 100 + z div 400)"

definition DAYS_IN_MONTH :: "int list" where
  "DAYS_IN_MONTH = [-1, 31, 28, 31, 30, 31, 30, 31, 31, 30, 31, 30, 31]"

definition DAYS_BEFORE_MONTH :: "int list" where
  "DAYS_BEFORE_MONTH = [-1, 0, 31, 59, 90, 120, 151, 181, 212, 243, 273, 304, 334]"

definition days_before_month :: "int \<Rightarrow> int \<Rightarrow> int" where
  "days_before_month y m =
     DAYS_BEFORE_MONTH ! nat m + (if m > 2 \<and> is_leap y then 1 else 0)"

definition ymd2ord :: "int \<Rightarrow> int \<Rightarrow> int \<Rightarrow> int" where
  "ymd2ord y m d = days_before_year y + days_before_month y m + d"

definition DI400Y :: int where "DI400Y = 146097"
definition DI100Y :: int where "DI100Y = 36524"
definition DI4Y :: int where "DI4Y = 1461"
definition MAXORDINAL :: int where "MAXORDINAL = 3652059"

definition ord2ymd :: "int \<Rightarrow> pydate" where
  "ord2ymd n0 =
     (let n = n0 - 1;
          n400 = n div DI400Y; n = n mod DI400Y;
          n100 = n div DI100Y; n = n mod DI100Y;
          n4 = n div DI4Y; n = n mod DI4Y;
          n1 = n div 365; n = n mod 365;
          y = n400 * 400 + 1 + n100 * 100 + n4 * 4 + n1
      in if n1 = 4 \<or> n100 = 4 then \<lparr>year = y - 1, month = 12, day = 31\<rparr>
         else
           let leapyear = (n1 = 3 \<and> (n4 \<noteq> 24 \<or> n100 = 3));
               m = (n + 50) div 32;
               preceding = DAYS_BEFORE_MONTH ! nat m + (if m > 2 \<and> leapyear then 1 else 0)
           in if preceding > n
              then let m' = m - 1;
                       preceding' = preceding
                         - (DAYS_IN_MONTH ! nat m' + (if m' = 2 \<and> leapyear then 1 else 0))
                   in \<lparr>year = y, month = m', day = n - preceding' + 1\<rparr>
              else \<lparr>year = y, month = m, day = n - preceding + 1\<rparr>)"

definition toordinal :: "pydate \<Rightarrow> int" where
  "toordinal d = ymd2ord (year d) (month d) (day d)"

text \<open>\<^verbatim>\<open>d - datetime.timedelta(days=i)\<close>\<close>

definition date_minus_days :: "pydate \<Rightarrow> int \<Rightarrow> exn + pydate" where
  "date_minus_days d i =
     (let ordinal = toordinal d + (- i)
      in if 0 < ordinal \<and> ordinal \<le> MAXORDINAL then Inr (ord2ymd ordinal)
         else Inl OverflowError)"

definition digit :: "int \<Rightarrow> char" where
  "digit k = ''0123456789'' ! nat (k mod 10)"

text \<open>
  \<^verbatim>\<open>strftime('%Y-%m-%d')\<close>: the year in four digits, month and day in two (the C library
  pads the year of a date before the year 1000 differently from platform to platform;
  no run meets such a date).
\<close>

definition strftime_Ymd :: "pydate \<Rightarrow> string" where
  "strftime_Ymd d =
     [digit (year d div 1000), digit (year d div 100), digit (year d div 10), digit (year d)]
     @ ''-'' @ [digit (month d div 10), digit (month d)]
     @ ''-'' @ [digit (day d div 10), digit (day d)]"

section \<open>The world the program acts on\<close>

datatype level = INFO | WARNING | ERROR

datatype message =
    Retrying nat exn nat
  | All_retries_failed
  | Fetching_forecast string
  | Fetching_history string string
  | Successfully_wrote json json json
  | Updated_existing json json json
  | MySQL_error exn
  | Error_extracting_writing mode exn
  | Exception_type exn
  | Exception_message exn
  | Stack_trace exn

datatype event =
    HttpGet string
  | Sleep nat
  | Log level message
  | Execute row
  | Commit

datatype reply = Raises exn | Response nat "json option"

text \<open>
  What the program is given: the two attributes read from the configuration, the system
  date (\<^verbatim>\<open>datetime.date.today()\<close>), and the behaviour of the two servers.
  \<open>net env n url\<close> is what the \<open>n\<close>-th HTTP request of the run meets when it asks for
  \<open>url\<close> (an exception of \<^verbatim>\<open>requests.get\<close>, or a status code with the body parsed as
  JSON, \<open>None\<close> for a body that is not JSON).
  \<open>db_fault env n\<close> says that the \<open>n\<close>-th call to the database fails with a
  \<^verbatim>\<open>mysql.connector.Error\<close>.
\<close>

record env =
  api_key :: string
  cities :: "string list"
  today :: pydate
  net :: "nat \<Rightarrow> string \<Rightarrow> reply"
  db_fault :: "nat \<Rightarrow> bool"

text \<open>
  The state: everything the run has done so far, oldest first (\<open>trace\<close>), the number of
  HTTP requests and of database calls made, the table as the session sees it, the table
  as last committed, and whether the connection and the cursor of \<^verbatim>\<open>__init__\<close> are open.
\<close>

record world =
  trace :: "event list"
  http_calls :: nat
  db_calls :: nat
  table :: "weather_record list"
  durable :: "weather_record list"
  conn_open :: bool
  cursor_open :: bool

definition emit :: "event \<Rightarrow> world \<Rightarrow> world" where
  "emit e w = w\<lparr>trace := trace w @ [e]\<rparr>"

definition logging :: "level \<Rightarrow> message \<Rightarrow> world \<Rightarrow> world" where
  "logging lvl msg w = emit (Log lvl msg) w"

definition sleep :: "nat \<Rightarrow> world \<Rightarrow> world" where
  "sleep delay w = emit (Sleep delay) w"

section \<open>retry and fetch\_data\<close>

text \<open>The \<^verbatim>\<open>except\<close> clause of \<^verbatim>\<open>retry\<close>: the five classes it names.\<close>

fun retried :: "exn \<Rightarrow> bool" where
  "retried ConnectTimeout = True"
| "retried (HTTPError st) = True"
| "retried ReadTimeout = True"
| "retried Timeout = True"
| "retried ConnectionError = True"
| "retried _ = False"

text \<open>
  The loop of \<^verbatim>\<open>wrapper\<close> over the attempts left, with the current \<^verbatim>\<open>delay\<close>. An exception
  outside the tuple leaves the loop and the wrapper; after the last attempt the wrapper
  logs an error and returns \<^verbatim>\<open>None\<close>.
\<close>

fun wrapper_loop ::
    "(world \<Rightarrow> (exn + json) \<times> world) \<Rightarrow> nat list \<Rightarrow> nat \<Rightarrow> world \<Rightarrow> (exn + json) \<times> world" where
  "wrapper_loop func [] delay w = (Inr JNull, logging ERROR All_retries_failed w)"
| "wrapper_loop func (attempt # rest) delay w =
     (case func w of
        (Inr v, w') \<Rightarrow> (Inr v, w')
      | (Inl e, w') \<Rightarrow>
          if retried e
          then wrapper_loop func rest (delay * 2)
                 (sleep delay (logging WARNING (Retrying attempt e delay) w'))
          else (Inl e, w'))"

definition retry ::
    "(world \<Rightarrow> (exn + json) \<times> world) \<Rightarrow> world \<Rightarrow> (exn + json) \<times> world" where
  "retry func w = wrapper_loop func [1..<4] 2 w"

definition requests_get :: "env \<Rightarrow> string \<Rightarrow> world \<Rightarrow> (exn + nat \<times> json option) \<times> world" where
  "requests_get env url w =
     (let w' = (emit (HttpGet url) w)\<lparr>http_calls := Suc (http_calls w)\<rparr>
      in case net env (http_calls w) url of
           Raises e \<Rightarrow> (Inl e, w')
         | Response st body \<Rightarrow> (Inr (st, body), w'))"

definition raise_for_status :: "nat \<Rightarrow> exn + unit" where
  "raise_for_status st = (if 400 \<le> st \<and> st < 600 then Inl (HTTPError st) else Inr ())"

definition response_json :: "json option \<Rightarrow> exn + json" where
  "response_json body = (case body of None \<Rightarrow> Inl JSONDecodeError | Some j \<Rightarrow> Inr j)"

text \<open>The body of \<^verbatim>\<open>fetch_data\<close>, before the decorator.\<close>

definition fetch_data_body :: "env \<Rightarrow> string \<Rightarrow> world \<Rightarrow> (exn + json) \<times> world" where
  "fetch_data_body env url w =
     (case requests_get env url w of
        (Inl e, w') \<Rightarrow> (Inl e, w')
      | (Inr (st, body), w') \<Rightarrow>
          (case raise_for_status st of
             Inl e \<Rightarrow> (Inl e, w')
           | Inr _ \<Rightarrow> (response_json body, w')))"

definition fetch_data :: "env \<Rightarrow> string \<Rightarrow> world \<Rightarrow> (exn + json) \<times> world" where
  "fetch_data env url = retry (fetch_data_body env url)"


section \<open>insert\_record\<close>

text \<open>The three \<^verbatim>\<open>logging.error\<close> calls of \<^verbatim>\<open>exception_handling\<close>, for the exception being handled.\<close>

definition exception_handling :: "exn \<Rightarrow> world \<Rightarrow> world" where
  "exception_handling e w =
     logging ERROR (Stack_trace e)
       (logging ERROR (Exception_message e)
          (logging ERROR (Exception_type e) w))"

text \<open>The eight parameters of the statement, converted by the connector.\<close>

definition row_params :: "row \<Rightarrow> weather_record option" where
  "row_params r =
     (case (to_mysql (Date r), to_mysql (Location r), to_mysql (Country r), to_mysql (Min_Temp r),
            to_mysql (Max_Temp r), to_mysql (Humidity r), to_mysql (Air_Quality r), to_mysql (Type r)) of
        (Some d, Some l, Some c, Some mn, Some mx, Some h, Some a, Some t) \<Rightarrow>
          Some \<lparr>date = d, location = l, country = c, min_temp = mn, max_temp = mx,
                humidity = h, air_quality = a, rtype = t\<rparr>
      | _ \<Rightarrow> None)"

text \<open>
  \<^verbatim>\<open>self.cursor.execute(query, params)\<close>: a \<^verbatim>\<open>mysql.connector.Error\<close> when the cursor or the
  connection is closed, when a parameter cannot be converted, or when the server fails;
  otherwise the statement runs on the session's table and gives the affected-rows count.
\<close>

definition cursor_execute :: "env \<Rightarrow> row \<Rightarrow> world \<Rightarrow> (exn + nat) \<times> world" where
  "cursor_execute env r w =
     (let w' = (emit (Execute r) w)\<lparr>db_calls := Suc (db_calls w)\<rparr>
      in if \<not> (conn_open w \<and> cursor_open w) \<or> db_fault env (db_calls w) then (Inl MySQLError, w')
         else case row_params r of
                None \<Rightarrow> (Inl MySQLError, w')
              | Some new \<Rightarrow>
                  (case insert_on_duplicate_key_update (table w) new of
                     (tbl, rowcount) \<Rightarrow> (Inr rowcount, w'\<lparr>table := tbl\<rparr>)))"

text \<open>\<^verbatim>\<open>self.conn.commit()\<close>: what the session has written becomes durable.\<close>

definition conn_commit :: "env \<Rightarrow> world \<Rightarrow> exn option \<times> world" where
  "conn_commit env w =
     (let w' = (emit Commit w)\<lparr>db_calls := Suc (db_calls w)\<rparr>
      in if \<not> conn_open w \<or> db_fault env (db_calls w) then (Some MySQLError, w')
         else (None, w'\<lparr>durable := table w\<rparr>))"

definition insert_record :: "env \<Rightarrow> row \<Rightarrow> world \<Rightarrow> world" where
  "insert_record env r w =
     (case cursor_execute env r w of
        (Inl err, w1) \<Rightarrow> exception_handling err (logging ERROR (MySQL_error err) w1)
      | (Inr rowcount, w1) \<Rightarrow>
          (case conn_commit env w1 of
             (Some err, w2) \<Rightarrow> exception_handling err (logging ERROR (MySQL_error err) w2)
           | (None, w2) \<Rightarrow>
               if rowcount = 1
               then logging INFO (Successfully_wrote (Location r) (Date r) (Type r)) w2
               else logging INFO (Updated_existing (Location r) (Date r) (Type r)) w2))"

section \<open>extract\_and\_write\<close>

text \<open>Sequencing of computations that may raise.\<close>

definition and_then :: "exn + 'a \<Rightarrow> ('a \<Rightarrow> exn + 'b) \<Rightarrow> exn + 'b" where
  "and_then m f = (case m of Inl e \<Rightarrow> Inl e | Inr v \<Rightarrow> f v)"

text \<open>
  The body of the loop up to the call of \<^verbatim>\<open>insert_record\<close>: \<^verbatim>\<open>day\<close> and the dict \<^verbatim>\<open>row\<close>,
  its values evaluated in the order written.
\<close>

definition build_row :: "json \<Rightarrow> mode \<Rightarrow> json \<Rightarrow> exn + row" where
  "build_row data mode day_data =
     and_then (getitem day_data ''day'') (\<lambda>day.
     and_then (getitem day_data ''date'') (\<lambda>v_date.
     and_then (and_then (getitem data ''location'') (\<lambda>l. getitem l ''name'')) (\<lambda>v_location.
     and_then (and_then (getitem data ''location'') (\<lambda>l. getitem l ''country'')) (\<lambda>v_country.
     and_then (getitem day ''mintemp_c'') (\<lambda>v_min.
     and_then (getitem day ''maxtemp_c'') (\<lambda>v_max.
     and_then (getitem day ''avghumidity'') (\<lambda>v_hum.
     and_then (and_then (and_then (dict_get data ''current'' (JObj []))
                 (\<lambda>c. dict_get c ''air_quality'' (JObj [])))
                 (\<lambda>a. dict_get a ''co'' (JStr ''N/A''))) (\<lambda>v_air.
     Inr \<lparr>Date = v_date, Location = v_location, Country = v_country, Min_Temp = v_min,
          Max_Temp = v_max, Humidity = v_hum, Air_Quality = v_air,
          Type = JStr (upper mode)\<rparr>))))))))"

text \<open>The \<^verbatim>\<open>for\<close> loop over the days left; the first exception ends it.\<close>

fun for_day_data :: "env \<Rightarrow> json \<Rightarrow> mode \<Rightarrow> json list \<Rightarrow> world \<Rightarrow> exn option \<times> world" where
  "for_day_data env data mode [] w = (None, w)"
| "for_day_data env data mode (day_data # rest) w =
     (case build_row data mode day_data of
        Inl e \<Rightarrow> (Some e, w)
      | Inr r \<Rightarrow> for_day_data env data mode rest (insert_record env r w))"

text \<open>The \<^verbatim>\<open>except Exception\<close> clause of \<^verbatim>\<open>extract_and_write\<close>.\<close>

definition except_Exception :: "mode \<Rightarrow> exn \<Rightarrow> world \<Rightarrow> world" where
  "except_Exception mode e w =
     exception_handling e (logging ERROR (Error_extracting_writing mode e) w)"

definition forecast_days :: "json \<Rightarrow> exn + json list" where
  "forecast_days data =
     and_then (and_then (getitem data ''forecast'') (\<lambda>f. getitem f ''forecastday'')) py_iter"

definition extract_and_write :: "env \<Rightarrow> json \<Rightarrow> mode \<Rightarrow> world \<Rightarrow> world" where
  "extract_and_write env data mode w =
     (case forecast_days data of
        Inl e \<Rightarrow> except_Exception mode e w
      | Inr days \<Rightarrow>
          (case for_day_data env data mode days w of
             (Some e, w') \<Rightarrow> except_Exception mode e w'
           | (None, w') \<Rightarrow> w'))"

section \<open>The URLs\<close>

text \<open>
  \<^verbatim>\<open>urllib.parse.quote_plus\<close> on the bytes of the string: letters, digits and \<^verbatim>\<open>_.-~\<close> stay,
  a space becomes \<^verbatim>\<open>+\<close>, any other byte its \<^verbatim>\<open>%XX\<close>.
\<close>

definition always_safe :: "char \<Rightarrow> bool" where
  "always_safe c \<longleftrightarrow>
     c \<in> set ''ABCDEFGHIJKLMNOPQRSTUVWXYZabcdefghijklmnopqrstuvwxyz0123456789_.-~''"

definition hex :: "nat \<Rightarrow> char" where
  "hex k = ''0123456789ABCDEF'' ! (k mod 16)"

definition quote_char :: "char \<Rightarrow> string" where
  "quote_char c =
     (if c = CHR '' '' then ''+''
      else if always_safe c then [c]
      else [CHR ''%'', hex (of_char c div 16), hex (of_char c)])"

definition quote_plus :: "string \<Rightarrow> string" where
  "quote_plus s = concat (map quote_char s)"

fun join :: "string \<Rightarrow> string list \<Rightarrow> string" where
  "join sep [] = []"
| "join sep [x] = x"
| "join sep (x # y # ys) = x @ sep @ join sep (y # ys)"

definition urlencode :: "(string \<times> string) list \<Rightarrow> string" where
  "urlencode params = join ''&'' (map (\<lambda>(k, v). quote_plus k @ ''='' @ quote_plus v) params)"

definition BASE_WEATHER_API_URL :: string where
  "BASE_WEATHER_API_URL = ''http://api.weatherapi.com/v1/''"

definition build_forecast_url :: "env \<Rightarrow> string \<Rightarrow> string" where
  "build_forecast_url env city =
     BASE_WEATHER_API_URL @ ''forecast.json?key='' @ api_key env @ ''&''
       @ urlencode [(''q'', city), (''days'', ''3''), (''aqi'', ''yes''), (''alerts'', ''no'')]"

definition build_history_url :: "env \<Rightarrow> string \<Rightarrow> string \<Rightarrow> string" where
  "build_history_url env city date_str =
     BASE_WEATHER_API_URL @ ''history.json?key='' @ api_key env @ ''&''
       @ urlencode [(''q'', city), (''dt'', date_str)]"

section \<open>The two passes and the run\<close>

text \<open>
  A pass either ends (\<open>None\<close>) or is left by an exception (\<open>Some e\<close>); both come with the
  world as it is at that moment.
\<close>

fun for_city_forecast :: "env \<Rightarrow> string list \<Rightarrow> world \<Rightarrow> exn option \<times> world" where
  "for_city_forecast env [] w = (None, w)"
| "for_city_forecast env (city # rest) w =
     (let url = build_forecast_url env city
      in case fetch_data env url (logging INFO (Fetching_forecast city) w) of
           (Inl e, w') \<Rightarrow> (Some e, w')
         | (Inr data, w') \<Rightarrow>
             for_city_forecast env rest
               (if truthy data then extract_and_write env data Forecast w' else w'))"

definition run_forecast_etl :: "env \<Rightarrow> world \<Rightarrow> exn option \<times> world" where
  "run_forecast_etl env w = for_city_forecast env (cities env) w"

fun for_city_history :: "env \<Rightarrow> string \<Rightarrow> string list \<Rightarrow> world \<Rightarrow> exn option \<times> world" where
  "for_city_history env history_date [] w = (None, w)"
| "for_city_history env history_date (city # rest) w =
     (let url = build_history_url env city history_date
      in case fetch_data env url (logging INFO (Fetching_history city history_date) w) of
           (Inl e, w') \<Rightarrow> (Some e, w')
         | (Inr data, w') \<Rightarrow>
             for_city_history env history_date rest
               (if truthy data then extract_and_write env data History w' else w'))"

fun for_i_history :: "env \<Rightarrow> pydate \<Rightarrow> int list \<Rightarrow> world \<Rightarrow> exn option \<times> world" where
  "for_i_history env d [] w = (None, w)"
| "for_i_history env d (i # rest) w =
     (case date_minus_days d i of
        Inl e \<Rightarrow> (Some e, w)
      | Inr past \<Rightarrow>
          (case for_city_history env (strftime_Ymd past) (cities env) w of
             (Some e, w') \<Rightarrow> (Some e, w')
           | (None, w') \<Rightarrow> for_i_history env d rest w'))"

definition run_history_etl :: "env \<Rightarrow> world \<Rightarrow> exn option \<times> world" where
  "run_history_etl env w = for_i_history env (today env) [1, 2, 3] w"

definition close_connection :: "world \<Rightarrow> world" where
  "close_connection w = w\<lparr>cursor_open := False, conn_open := False\<rparr>"

text \<open>\<^verbatim>\<open>start\<close>: the two passes inside \<^verbatim>\<open>try\<close>, \<^verbatim>\<open>close_connection\<close> in \<^verbatim>\<open>finally\<close>.\<close>

definition start :: "env \<Rightarrow> world \<Rightarrow> exn option \<times> world" where
  "start env w =
     (case run_forecast_etl env w of
        (Some e, w1) \<Rightarrow> (Some e, close_connection w1)
      | (None, w1) \<Rightarrow>
          (case run_history_etl env w1 of
             (r, w2) \<Rightarrow> (r, close_connection w2)))"

text \<open>
  The world a run starts in, once \<^verbatim>\<open>__init__\<close> has connected: nothing done yet, the table
  as the database holds it, connection and cursor open.
\<close>

definition initial_world :: "weather_record list \<Rightarrow> world" where
  "initial_world tbl =
     \<lparr>trace = [], http_calls = 0, db_calls = 0, table = tbl, durable = tbl,
      conn_open = True, cursor_open = True\<rparr>"

section \<open>Notions the properties are stated with\<close>

text \<open>The triple of the unique key, and whether none of its three columns is \<open>NULL\<close>.\<close>

definition key :: "weather_record \<Rightarrow> sqlval \<times> sqlval \<times> sqlval" where
  "key r = (date r, location r, rtype r)"

definition keyed :: "weather_record \<Rightarrow> bool" where
  "keyed r \<longleftrightarrow> date r \<noteq> Null \<and> location r \<noteq> Null \<and> rtype r \<noteq> Null"

text \<open>No two rows without a \<open>NULL\<close> in the key have the same triple.\<close>

definition key_unique :: "weather_record list \<Rightarrow> bool" where
  "key_unique tbl \<longleftrightarrow> distinct (map key (filter keyed tbl))"

text \<open>What the statement does to one stored row.\<close>

definition upd :: "weather_record \<Rightarrow> weather_record \<Rightarrow> weather_record" where
  "upd new r = (if duplicate_key new r then on_duplicate_key_update new r else r)"

text \<open>
  The part of the world that belongs to the database, and the worlds that differ from a
  given one, on that part, by calls of \<open>insert_record\<close> only.
\<close>

definition store :: "world \<Rightarrow> weather_record list \<times> weather_record list \<times> nat \<times> bool \<times> bool" where
  "store w = (table w, durable w, db_calls w, conn_open w, cursor_open w)"

inductive writes :: "env \<Rightarrow> world \<Rightarrow> world \<Rightarrow> bool" for env :: env and w :: world where
  same: "store w' = store w \<Longrightarrow> writes env w w'"
| insert: "writes env w w1 \<Longrightarrow> store w' = store (insert_record env r w1) \<Longrightarrow> writes env w w'"

text \<open>
  The worlds that the pipeline can bring about: from the empty table that
  \<^verbatim>\<open>create_table\<close> makes, by single writes, by payloads written, by whole runs, and by
  connecting again to what was committed.
\<close>

inductive reachable :: "world \<Rightarrow> bool" where
  created: "reachable (initial_world [])"
| inserted: "reachable w \<Longrightarrow> reachable (insert_record env r w)"
| extracted: "reachable w \<Longrightarrow> reachable (extract_and_write env data mode w)"
| ran: "reachable w \<Longrightarrow> reachable (snd (start env w))"
| reconnected: "reachable w \<Longrightarrow> reachable (initial_world (durable w))"

text \<open>The URLs requested, in order, in a stretch of the trace; what a call added to the trace.\<close>

fun http_gets :: "event list \<Rightarrow> string list" where
  "http_gets [] = []"
| "http_gets (HttpGet url # tr) = url # http_gets tr"
| "http_gets (_ # tr) = http_gets tr"

definition new_events :: "world \<Rightarrow> world \<Rightarrow> event list" where
  "new_events w w' = drop (length (trace w)) (trace w')"

text \<open>
  A reply that \<open>fetch_data\<close> does not let out as an exception: an exception of the
  \<^verbatim>\<open>except\<close> tuple, an error status, or a body that parses.
\<close>

fun nonfatal :: "reply \<Rightarrow> bool" where
  "nonfatal (Raises e) = retried e"
| "nonfatal (Response st body) = ((400 \<le> st \<and> st < 600) \<or> body \<noteq> None)"

text \<open>A step that only adds to the trace, and no request.\<close>

definition quiet :: "world \<Rightarrow> world \<Rightarrow> bool" where
  "quiet w w' \<longleftrightarrow> (\<exists>tr. trace w' = trace w @ tr \<and> http_gets tr = [])"

text \<open>
  The loop that \<open>run_forecast_etl\<close> and the inner loop of \<open>run_history_etl\<close> have in
  common, over the log line and the URL of each unit.
\<close>

fun for_units :: "env \<Rightarrow> mode \<Rightarrow> (message \<times> string) list \<Rightarrow> world \<Rightarrow> exn option \<times> world" where
  "for_units env mode [] w = (None, w)"
| "for_units env mode ((msg, url) # rest) w =
     (case fetch_data env url (logging INFO msg w) of
        (Inl e, w') \<Rightarrow> (Some e, w')
      | (Inr data, w') \<Rightarrow>
          for_units env mode rest
            (if truthy data then extract_and_write env data mode w' else w'))"

definition forecast_units :: "env \<Rightarrow> (message \<times> string) list" where
  "forecast_units env = map (\<lambda>city. (Fetching_forecast city, build_forecast_url env city)) (cities env)"

definition history_units :: "env \<Rightarrow> string \<Rightarrow> (message \<times> string) list" where
  "history_units env history_date =
     map (\<lambda>city. (Fetching_history city history_date, build_history_url env city history_date))
       (cities env)"

definition all_history_units :: "env \<Rightarrow> (message \<times> string) list" where
  "all_history_units env =
     concat (map (\<lambda>i. history_units env (strftime_Ymd (ord2ymd (toordinal (today env) - i))))
       [1, 2, 3])"

text \<open>
  The URLs the history pass is expected to ask for: for each number of days back, in
  order, the history URL of every configured city for the date that many days before
  today.
\<close>

definition history_urls :: "env \<Rightarrow> int list \<Rightarrow> string list" where
  "history_urls env days_back =
     concat (map (\<lambda>i. map (\<lambda>city. build_history_url env city
                                 (strftime_Ymd (ord2ymd (toordinal (today env) - i))))
                       (cities env))
               days_back)"

section \<open>Scenarios\<close>

text \<open>
  Concrete inputs on which the theorems below are exercised. In each, the configuration
  has the key \<^verbatim>\<open>k\<close> and the system date is 2024-05-10.
\<close>

definition env_with :: "string list \<Rightarrow> (nat \<Rightarrow> string \<Rightarrow> reply) \<Rightarrow> env" where
  "env_with cs srv =
     \<lparr>api_key = ''k'', cities = cs, today = \<lparr>year = 2024, month = 5, day = 10\<rparr>,
      net = srv, db_fault = (\<lambda>n. False)\<rparr>"

text \<open>A server that cannot be reached, one that answers 404, one that answers 503.\<close>

definition env_unreachable :: env where
  "env_unreachable = env_with [''Paris''] (\<lambda>n url. Raises ConnectTimeout)"

definition env_404 :: env where
  "env_404 = env_with [''Paris''] (\<lambda>n url. Response 404 None)"

definition env_503 :: env where
  "env_503 = env_with [''Paris''] (\<lambda>n url. Response 503 None)"

text \<open>Two cities, and a server that answers every request with an empty object.\<close>

definition env_two_cities :: env where
  "env_two_cities = env_with [''Paris'', ''Tokyo''] (\<lambda>n url. Response 200 (Some (JObj [])))"

text \<open>The same two cities, and a server that answers 200 with a body that is not JSON.\<close>

definition env_two_cities_html :: env where
  "env_two_cities_html = env_with [''Paris'', ''Tokyo''] (\<lambda>n url. Response 200 None)"

text \<open>A day block and a payload of the API, a row as the program builds it, a row as stored.\<close>

definition day_block :: "json \<Rightarrow> real \<Rightarrow> real \<Rightarrow> real \<Rightarrow> json" where
  "day_block d mn mx h =
     JObj [(''date'', d),
           (''day'', JObj [(''mintemp_c'', JNum mn), (''maxtemp_c'', JNum mx), (''avghumidity'', JNum h)])]"

definition payload :: "string \<Rightarrow> string \<Rightarrow> json list \<Rightarrow> json" where
  "payload name ctry days =
     JObj [(''location'', JObj [(''name'', JStr name), (''country'', JStr ctry)]),
           (''forecast'', JObj [(''forecastday'', JArr days)])]"

definition a_row :: "json \<Rightarrow> string \<Rightarrow> string \<Rightarrow> real \<Rightarrow> real \<Rightarrow> real \<Rightarrow> string \<Rightarrow> row" where
  "a_row d name ctry mn mx h t =
     \<lparr>Date = d, Location = JStr name, Country = JStr ctry, Min_Temp = JNum mn,
      Max_Temp = JNum mx, Humidity = JNum h, Air_Quality = JStr ''N/A'', Type = JStr t\<rparr>"

definition stored :: "sqlval \<Rightarrow> string \<Rightarrow> string \<Rightarrow> real \<Rightarrow> real \<Rightarrow> real \<Rightarrow> string \<Rightarrow> weather_record" where
  "stored d name ctry mn mx h t =
     \<lparr>date = d, location = Str name, country = Str ctry, min_temp = Num mn,
      max_temp = Num mx, humidity = Num h, air_quality = Str ''N/A'', rtype = Str t\<rparr>"

text \<open>
  Three cities. The forecast of Paris and of Tokyo is answered with one day each, every
  history request with an empty object, and the forecast of Atlantis as the parameter says.
\<close>

definition env_three :: "reply \<Rightarrow> env" where
  "env_three atlantis =
     env_with [''Paris'', ''Atlantis'', ''Tokyo'']
       (\<lambda>n url.
          if url = ''http://api.weatherapi.com/v1/forecast.json?key=k&q=Paris&days=3&aqi=yes&alerts=no''
          then Response 200 (Some (payload ''Paris'' ''France'' [day_block (JStr ''2024-05-10'') 10 20 60]))
          else if url = ''http://api.weatherapi.com/v1/forecast.json?key=k&q=Atlantis&days=3&aqi=yes&alerts=no''
          then atlantis
          else if url = ''http://api.weatherapi.com/v1/forecast.json?key=k&q=Tokyo&days=3&aqi=yes&alerts=no''
          then Response 200 (Some (payload ''Tokyo'' ''Japan'' [day_block (JStr ''2024-05-10'') 15 25 70]))
          else Response 200 (Some (JObj [])))"

section \<open>The retry policy\<close>


lemma fetch_data_body_status:
  "net env (http_calls w) url = Response st body \<Longrightarrow> 400 \<le> st \<Longrightarrow> st < 600 \<Longrightarrow>
   fetch_data_body env url w =
     (Inl (HTTPError st), w\<lparr>trace := trace w @ [HttpGet url], http_calls := Suc (http_calls w)\<rparr>)"
  by (simp add: fetch_data_body_def requests_get_def emit_def raise_for_status_def)

text \<open>
  A function that makes one request and fails with an exception of the tuple, whenever
  it is called, is called three times by the wrapper; a sleep follows each failure,
  the third too.
\<close>

lemma retry_three_failures:
  assumes "\<And>w. retried (e (http_calls w)) \<and>
      func w = (Inl (e (http_calls w)),
                w\<lparr>trace := trace w @ [HttpGet url], http_calls := Suc (http_calls w)\<rparr>)"
  shows "retry func w =
     (Inr JNull,
      w\<lparr>trace := trace w @
          [HttpGet url, Log WARNING (Retrying 1 (e (http_calls w)) 2), Sleep 2,
           HttpGet url, Log WARNING (Retrying 2 (e (http_calls w + 1)) 4), Sleep 4,
           HttpGet url, Log WARNING (Retrying 3 (e (http_calls w + 2)) 8), Sleep 8,
           Log ERROR All_retries_failed],
        http_calls := http_calls w + 3\<rparr>)"
  by (simp add: retry_def assms logging_def sleep_def emit_def upt_rec numeral_3_eq_3 eval_nat_numeral)



text \<open>
  C2, as stated, fails: a 404 is an \<^verbatim>\<open>HTTPError\<close>, which the \<^verbatim>\<open>except\<close> clause of \<^verbatim>\<open>retry\<close>
  names. Against a server that always answers 404 the call makes three requests and
  sleeps three times.
\<close>

theorem fetch_data_404_is_retried:
  "fetch_data env_404 ''u'' (initial_world []) =
     (Inr JNull,
      \<lparr>trace =
          [HttpGet ''u'', Log WARNING (Retrying 1 (HTTPError 404) 2), Sleep 2,
           HttpGet ''u'', Log WARNING (Retrying 2 (HTTPError 404) 4), Sleep 4,
           HttpGet ''u'', Log WARNING (Retrying 3 (HTTPError 404) 8), Sleep 8,
           Log ERROR All_retries_failed],
       http_calls = 3, db_calls = 0, table = [], durable = [],
       conn_open = True, cursor_open = True\<rparr>)"
  by (simp add: fetch_data_def retry_def fetch_data_body_def requests_get_def
      raise_for_status_def env_404_def env_with_def initial_world_def
      logging_def sleep_def emit_def upt_rec numeral_3_eq_3 eval_nat_numeral)

text \<open>
  C2, amended. When every attempt for a URL is answered with a status from 400 to 599,
  \<open>fetch_data\<close> treats it as it treats a transient failure: three requests, a sleep of
  2, 4 and 8 after the failures, and \<^verbatim>\<open>None\<close> returned without raising.
\<close>

theorem fetch_data_always_error_status:
  assumes "\<forall>n. net env n url = Response st (body n)" and "400 \<le> st" and "st < 600"
  shows "fetch_data env url w =
     (Inr JNull,
      w\<lparr>trace := trace w @
          [HttpGet url, Log WARNING (Retrying 1 (HTTPError st) 2), Sleep 2,
           HttpGet url, Log WARNING (Retrying 2 (HTTPError st) 4), Sleep 4,
           HttpGet url, Log WARNING (Retrying 3 (HTTPError st) 8), Sleep 8,
           Log ERROR All_retries_failed],
        http_calls := http_calls w + 3\<rparr>)"
  unfolding fetch_data_def
proof (rule retry_three_failures [where e = "\<lambda>n. HTTPError st"])
  fix v :: world
  from assms(1) have a: "net env (http_calls v) url = Response st (body (http_calls v))"
    by simp
  from fetch_data_body_status [OF a assms(2) assms(3)]
  show "retried (HTTPError st) \<and>
      fetch_data_body env url v =
        (Inl (HTTPError st),
         v\<lparr>trace := trace v @ [HttpGet url], http_calls := Suc (http_calls v)\<rparr>)"
    by simp
qed

theorem fetch_data_always_error_status_witness:
  "(\<forall>n. net env_503 n ''u'' = Response 503 None) \<and> (400::nat) \<le> 503 \<and> (503::nat) < 600 \<and>
   fetch_data env_503 ''u'' (initial_world []) =
     (Inr JNull,
      (initial_world [])\<lparr>trace :=
          [HttpGet ''u'', Log WARNING (Retrying 1 (HTTPError 503) 2), Sleep 2,
           HttpGet ''u'', Log WARNING (Retrying 2 (HTTPError 503) 4), Sleep 4,
           HttpGet ''u'', Log WARNING (Retrying 3 (HTTPError 503) 8), Sleep 8,
           Log ERROR All_retries_failed],
        http_calls := 3\<rparr>)"
  using fetch_data_always_error_status
    [of env_503 "''u''" 503 "\<lambda>n. None" "initial_world []"]
  by (simp add: env_503_def env_with_def initial_world_def)

section \<open>The upsert\<close>

lemma duplicate_key_iff: "duplicate_key new old \<longleftrightarrow> keyed new \<and> key old = key new"
  by (auto simp: duplicate_key_def keyed_def key_def)

lemma key_update [simp]: "key (on_duplicate_key_update new old) = key old"
  by (simp add: key_def on_duplicate_key_update_def)

lemma keyed_update [simp]: "keyed (on_duplicate_key_update new old) = keyed old"
  by (simp add: keyed_def on_duplicate_key_update_def)

lemma keyed_cong: "key a = key b \<Longrightarrow> keyed a = keyed b"
  by (auto simp: keyed_def key_def)

lemma update_idem [simp]:
  "on_duplicate_key_update new (on_duplicate_key_update new old) = on_duplicate_key_update new old"
  by (simp add: on_duplicate_key_update_def)

lemma update_self [simp]: "on_duplicate_key_update new new = new"
  by (simp add: on_duplicate_key_update_def)

lemma key_upd [simp]: "key (upd new r) = key r"
  by (simp add: upd_def)

lemma keyed_upd [simp]: "keyed (upd new r) = keyed r"
  by (simp add: upd_def)

lemma upd_idem [simp]: "upd new (upd new r) = upd new r"
  by (simp add: upd_def duplicate_key_iff)

lemma find_SomeD: "find P xs = Some x \<Longrightarrow> x \<in> set xs \<and> P x"
  by (induction xs) (auto split: if_splits)

lemma iodku_cases:
  "fst (insert_on_duplicate_key_update tbl new) =
     (if \<exists>r\<in>set tbl. duplicate_key new r then map (upd new) tbl else tbl @ [new])"
  by (auto simp: insert_on_duplicate_key_update_def upd_def find_None_iff split: option.splits dest: find_SomeD)

lemma iodku_rowcount_1:
  "snd (insert_on_duplicate_key_update tbl new) = 1 \<longleftrightarrow> (\<forall>r\<in>set tbl. \<not> duplicate_key new r)"
  by (auto simp: insert_on_duplicate_key_update_def find_None_iff split: option.splits dest: find_SomeD)

lemma iodku_twice:
  assumes "keyed new"
  shows "(\<exists>r\<in>set (fst (insert_on_duplicate_key_update tbl new)). duplicate_key new r)"
    and "fst (insert_on_duplicate_key_update (fst (insert_on_duplicate_key_update tbl new)) new)
         = fst (insert_on_duplicate_key_update tbl new)"
proof -
  show a: "\<exists>r\<in>set (fst (insert_on_duplicate_key_update tbl new)). duplicate_key new r"
    using assms by (auto simp: iodku_cases duplicate_key_iff)
  show "fst (insert_on_duplicate_key_update (fst (insert_on_duplicate_key_update tbl new)) new)
         = fst (insert_on_duplicate_key_update tbl new)"
  proof (cases "\<exists>r\<in>set tbl. duplicate_key new r")
    case True
    then show ?thesis using a by (simp add: iodku_cases)
  next
    case False
    then have "map (upd new) tbl = tbl" by (induction tbl) (auto simp: upd_def)
    with False a assms show ?thesis by (simp add: iodku_cases upd_def duplicate_key_iff)
  qed
qed

text \<open>
  A call of \<open>insert_record\<close> on an open connection that the database serves without error:
  the statement and the commit, then one line in the log, which says "wrote" exactly when
  no stored row had the key.
\<close>

lemma insert_record_ok:
  assumes "conn_open w" "cursor_open w"
      and "\<not> db_fault env (db_calls w)" "\<not> db_fault env (Suc (db_calls w))"
      and "row_params r = Some new"
  shows "insert_record env r w =
     w\<lparr>trace := trace w @ [Execute r, Commit,
          Log INFO ((if \<forall>s\<in>set (table w). \<not> duplicate_key new s then Successfully_wrote else Updated_existing)
                      (Location r) (Date r) (Type r))],
       db_calls := db_calls w + 2,
       table := fst (insert_on_duplicate_key_update (table w) new),
       durable := fst (insert_on_duplicate_key_update (table w) new)\<rparr>"
proof -
  obtain tbl n where io: "insert_on_duplicate_key_update (table w) new = (tbl, n)"
    by (cases "insert_on_duplicate_key_update (table w) new")
  have n: "n = 1 \<longleftrightarrow> (\<forall>s\<in>set (table w). \<not> duplicate_key new s)"
    using iodku_rowcount_1 [of "table w" new] io by simp
  show ?thesis
    using assms n
    by (simp add: insert_record_def cursor_execute_def conn_commit_def io emit_def logging_def Let_def)
qed

lemmas store_eval = insert_record_def cursor_execute_def conn_commit_def row_params_def
  insert_on_duplicate_key_update_def duplicate_key_def on_duplicate_key_update_def
  exception_handling_def logging_def emit_def initial_world_def env_with_def Let_def

text \<open>
  C4, as stated, fails for a record with \<open>NULL\<close> in a key column, which the table admits:
  the second write of a record without a date inserts a second row and reports "wrote".
\<close>

theorem insert_record_null_date_twice:
  "table (insert_record env_unreachable (a_row JNull ''Paris'' ''France'' 10 20 60 ''FORECAST'')
        (initial_world []))
      = [stored Null ''Paris'' ''France'' 10 20 60 ''FORECAST'']
   \<and> table (insert_record env_unreachable (a_row JNull ''Paris'' ''France'' 10 20 60 ''FORECAST'')
        (insert_record env_unreachable (a_row JNull ''Paris'' ''France'' 10 20 60 ''FORECAST'')
          (initial_world [])))
      = [stored Null ''Paris'' ''France'' 10 20 60 ''FORECAST'',
         stored Null ''Paris'' ''France'' 10 20 60 ''FORECAST'']
   \<and> last (trace (insert_record env_unreachable (a_row JNull ''Paris'' ''France'' 10 20 60 ''FORECAST'')
        (insert_record env_unreachable (a_row JNull ''Paris'' ''France'' 10 20 60 ''FORECAST'')
          (initial_world []))))
      = Log INFO (Successfully_wrote (JStr ''Paris'') JNull (JStr ''FORECAST''))"
  by (simp add: store_eval env_unreachable_def a_row_def stored_def)

text \<open>
  C4, amended. For a record whose date, location and type are not \<open>NULL\<close>, written twice
  on an open connection that the database serves without error: the table, as the
  session sees it and as committed, is after the second write what it was after the
  first, and the second write reports "updated".
\<close>

theorem insert_record_idempotent:
  assumes "conn_open w" and "cursor_open w"
      and "\<forall>n \<in> {db_calls w ..< db_calls w + 4}. \<not> db_fault env n"
      and "row_params r = Some new" and "keyed new"
  shows "table (insert_record env r (insert_record env r w)) = table (insert_record env r w)
       \<and> durable (insert_record env r (insert_record env r w)) = durable (insert_record env r w)
       \<and> last (trace (insert_record env r (insert_record env r w)))
           = Log INFO (Updated_existing (Location r) (Date r) (Type r))"
proof -
  let ?t = "fst (insert_on_duplicate_key_update (table w) new)"
  let ?w1 = "insert_record env r w"
  have f: "\<not> db_fault env (db_calls w)" "\<not> db_fault env (Suc (db_calls w))"
    "\<not> db_fault env (db_calls w + 2)" "\<not> db_fault env (Suc (db_calls w + 2))"
    using assms(3) by auto
  have w1: "?w1 = w\<lparr>trace := trace w @ [Execute r, Commit,
          Log INFO ((if \<forall>s\<in>set (table w). \<not> duplicate_key new s then Successfully_wrote else Updated_existing)
                      (Location r) (Date r) (Type r))],
       db_calls := db_calls w + 2, table := ?t, durable := ?t\<rparr>"
    by (rule insert_record_ok [OF assms(1) assms(2) f(1) f(2) assms(4)])
  have o: "conn_open ?w1" "cursor_open ?w1" and c: "db_calls ?w1 = db_calls w + 2"
    and t: "table ?w1 = ?t" and d: "durable ?w1 = ?t"
    using assms(1,2) by (simp_all add: w1)
  have f2: "\<not> db_fault env (db_calls ?w1)" "\<not> db_fault env (Suc (db_calls ?w1))"
    using f by (simp_all add: c)
  note w2 = insert_record_ok [OF o f2 assms(4)]
  from iodku_twice [OF assms(5), of "table w"] show ?thesis
    by (simp add: w2 t d)
qed

theorem insert_record_idempotent_witness:
  "table (insert_record env_unreachable (a_row (JStr ''2024-05-01'') ''Paris'' ''France'' 10 20 60 ''FORECAST'')
        (insert_record env_unreachable (a_row (JStr ''2024-05-01'') ''Paris'' ''France'' 10 20 60 ''FORECAST'')
          (initial_world [])))
      = table (insert_record env_unreachable (a_row (JStr ''2024-05-01'') ''Paris'' ''France'' 10 20 60 ''FORECAST'')
          (initial_world []))
   \<and> durable (insert_record env_unreachable (a_row (JStr ''2024-05-01'') ''Paris'' ''France'' 10 20 60 ''FORECAST'')
        (insert_record env_unreachable (a_row (JStr ''2024-05-01'') ''Paris'' ''France'' 10 20 60 ''FORECAST'')
          (initial_world [])))
      = durable (insert_record env_unreachable (a_row (JStr ''2024-05-01'') ''Paris'' ''France'' 10 20 60 ''FORECAST'')
          (initial_world []))
   \<and> last (trace (insert_record env_unreachable (a_row (JStr ''2024-05-01'') ''Paris'' ''France'' 10 20 60 ''FORECAST'')
        (insert_record env_unreachable (a_row (JStr ''2024-05-01'') ''Paris'' ''France'' 10 20 60 ''FORECAST'')
          (initial_world []))))
      = Log INFO (Updated_existing (JStr ''Paris'') (JStr ''2024-05-01'') (JStr ''FORECAST''))"
proof -
  have h: "conn_open (initial_world [])" "cursor_open (initial_world [])"
    "\<forall>n \<in> {db_calls (initial_world []) ..< db_calls (initial_world []) + 4}.
       \<not> db_fault env_unreachable n"
    "row_params (a_row (JStr ''2024-05-01'') ''Paris'' ''France'' 10 20 60 ''FORECAST'')
       = Some (stored (Str ''2024-05-01'') ''Paris'' ''France'' 10 20 60 ''FORECAST'')"
    "keyed (stored (Str ''2024-05-01'') ''Paris'' ''France'' 10 20 60 ''FORECAST'')"
    by (simp_all add: initial_world_def env_unreachable_def env_with_def row_params_def
        a_row_def stored_def keyed_def)
  from insert_record_idempotent [OF h] show ?thesis
    by (simp add: a_row_def)
qed

lemma filter_key_unique:
  "key_unique tbl \<Longrightarrow> old \<in> set tbl \<Longrightarrow> keyed old \<Longrightarrow> filter (\<lambda>s. key s = key old) tbl = [old]"
proof (induction tbl)
  case Nil
  then show ?case by simp
next
  case (Cons a tbl)
  show ?case
  proof (cases "key a = key old")
    case True
    then have ka: "keyed a" using Cons.prems(3) keyed_cong by blast
    have "\<forall>s\<in>set tbl. key s \<noteq> key old"
    proof
      fix s assume s: "s \<in> set tbl"
      show "key s \<noteq> key old"
      proof
        assume e: "key s = key old"
        then have "keyed s" using Cons.prems(3) keyed_cong by blast
        with s have "key s \<in> set (map key (filter keyed tbl))" by simp
        with Cons.prems(1) ka e True show False by (simp add: key_unique_def)
      qed
    qed
    then have "filter (\<lambda>s. key s = key old) tbl = []" by (simp add: filter_empty_conv)
    moreover have "a = old"
    proof (rule ccontr)
      assume "a \<noteq> old"
      with Cons.prems(2) have "old \<in> set tbl" by simp
      with \<open>\<forall>s\<in>set tbl. key s \<noteq> key old\<close> show False by blast
    qed
    ultimately show ?thesis by simp
  next
    case False
    with Cons.prems have "old \<in> set tbl" "key_unique tbl"
      by (auto simp: key_unique_def split: if_splits)
    with Cons.IH Cons.prems(3) False show ?thesis by simp
  qed
qed

lemma filter_other_keys:
  "filter (\<lambda>s. key s \<noteq> key new) (map (upd new) tbl) = filter (\<lambda>s. key s \<noteq> key new) tbl"
  by (induction tbl) (auto simp: upd_def duplicate_key_iff)

text \<open>
  C5, as stated, fails for a key with a \<open>NULL\<close> in it: the stored row without a date keeps
  its \<open>max_temp\<close> of 20, and the record with the same triple becomes a second row.
\<close>

theorem insert_record_null_date_not_merged:
  "table (insert_record env_unreachable (a_row JNull ''Paris'' ''France'' 10 23 60 ''FORECAST'')
        (initial_world [stored Null ''Paris'' ''France'' 10 20 60 ''FORECAST'']))
      = [stored Null ''Paris'' ''France'' 10 20 60 ''FORECAST'',
         stored Null ''Paris'' ''France'' 10 23 60 ''FORECAST'']"
  by (simp add: store_eval env_unreachable_def a_row_def stored_def)

text \<open>
  C5, amended. In a table with unique keys that holds a row \<open>old\<close> for a key without
  \<open>NULL\<close>, a record with that key, written on an open connection that the database serves
  without error, leaves exactly one row for the key: \<open>old\<close> with \<open>min_temp\<close>, \<open>max_temp\<close>,
  \<open>humidity\<close> and \<open>air_quality\<close> of the record, and so with the country it had. The rows
  of the other keys stay as they were, and the result is committed.
\<close>

theorem insert_record_merges:
  assumes "conn_open w" and "cursor_open w"
      and "\<not> db_fault env (db_calls w)" and "\<not> db_fault env (Suc (db_calls w))"
      and "row_params r = Some new" and "keyed new"
      and "key_unique (table w)" and "old \<in> set (table w)" and "key old = key new"
  shows "filter (\<lambda>s. key s = key new) (table (insert_record env r w))
           = [old\<lparr>min_temp := min_temp new, max_temp := max_temp new,
                  humidity := humidity new, air_quality := air_quality new\<rparr>]
       \<and> filter (\<lambda>s. key s \<noteq> key new) (table (insert_record env r w))
           = filter (\<lambda>s. key s \<noteq> key new) (table w)
       \<and> durable (insert_record env r w) = table (insert_record env r w)"
proof -
  have dk: "duplicate_key new old" using assms(6,9) by (simp add: duplicate_key_iff)
  with assms(8) have ex: "\<exists>s\<in>set (table w). duplicate_key new s" by blast
  have ko: "keyed old" using assms(6,9) keyed_cong by blast
  have t: "table (insert_record env r w) = map (upd new) (table w)"
    and d: "durable (insert_record env r w) = map (upd new) (table w)"
    using ex by (simp_all add: insert_record_ok [OF assms(1-5)] iodku_cases)
  have "filter (\<lambda>s. key s = key new) (map (upd new) (table w))
        = map (upd new) (filter (\<lambda>s. key s = key old) (table w))"
    by (simp add: filter_map o_def assms(9))
  also have "\<dots> = [upd new old]"
    by (simp add: filter_key_unique [OF assms(7,8) ko])
  finally have a: "filter (\<lambda>s. key s = key new) (map (upd new) (table w))
        = [old\<lparr>min_temp := min_temp new, max_temp := max_temp new,
                  humidity := humidity new, air_quality := air_quality new\<rparr>]"
    using dk by (simp add: upd_def on_duplicate_key_update_def)
  have b: "filter (\<lambda>s. key s \<noteq> key new) (map (upd new) (table w))
        = filter (\<lambda>s. key s \<noteq> key new) (table w)"
    by (rule filter_other_keys)
  show ?thesis by (simp add: t d a b)
qed

theorem insert_record_merges_witness:
  "filter (\<lambda>s. key s = key (stored (Str ''2024-05-01'') ''Paris'' ''FR'' 11 23 61 ''FORECAST''))
        (table (insert_record env_unreachable (a_row (JStr ''2024-05-01'') ''Paris'' ''FR'' 11 23 61 ''FORECAST'')
           (initial_world [stored (Str ''2024-05-01'') ''Paris'' ''France'' 10 20 60 ''FORECAST''])))
      = [stored (Str ''2024-05-01'') ''Paris'' ''France'' 11 23 61 ''FORECAST'']
   \<and> durable (insert_record env_unreachable (a_row (JStr ''2024-05-01'') ''Paris'' ''FR'' 11 23 61 ''FORECAST'')
           (initial_world [stored (Str ''2024-05-01'') ''Paris'' ''France'' 10 20 60 ''FORECAST'']))
      = table (insert_record env_unreachable (a_row (JStr ''2024-05-01'') ''Paris'' ''FR'' 11 23 61 ''FORECAST'')
           (initial_world [stored (Str ''2024-05-01'') ''Paris'' ''France'' 10 20 60 ''FORECAST'']))"
proof -
  let ?old = "stored (Str ''2024-05-01'') ''Paris'' ''France'' 10 20 60 ''FORECAST''"
  let ?new = "stored (Str ''2024-05-01'') ''Paris'' ''FR'' 11 23 61 ''FORECAST''"
  let ?r = "a_row (JStr ''2024-05-01'') ''Paris'' ''FR'' 11 23 61 ''FORECAST''"
  let ?w = "initial_world [?old]"
  have h: "conn_open ?w" "cursor_open ?w"
    "\<not> db_fault env_unreachable (db_calls ?w)" "\<not> db_fault env_unreachable (Suc (db_calls ?w))"
    "row_params ?r = Some ?new" "keyed ?new" "key_unique (table ?w)" "?old \<in> set (table ?w)"
    "key ?old = key ?new"
    by (simp_all add: initial_world_def env_unreachable_def env_with_def row_params_def
        a_row_def stored_def keyed_def key_def key_unique_def)
  from insert_record_merges [OF h] show ?thesis
    by (simp add: stored_def)
qed

section \<open>The transform\<close>

lemma build_row_needs_location:
  "getitem data ''location'' = Inl e2 \<Longrightarrow> \<exists>e. build_row data mode d = Inl e"
  by (simp add: build_row_def and_then_def split: sum.splits)

lemma except_Exception_trace:
  "except_Exception mode e w =
     w\<lparr>trace := trace w @
        [Log ERROR (Error_extracting_writing mode e), Log ERROR (Exception_type e),
         Log ERROR (Exception_message e), Log ERROR (Stack_trace e)]\<rparr>"
  by (simp add: except_Exception_def exception_handling_def logging_def emit_def)

text \<open>
  C8, as stated, fails: the location block is read inside the loop, once per day. A
  payload with an empty day list and no location block raises nothing; the transform
  returns without an error and without a line in the log.
\<close>

theorem empty_day_list_is_no_failure:
  "truthy (JObj [(''forecast'', JObj [(''forecastday'', JArr [])])])
   \<and> getitem (JObj [(''forecast'', JObj [(''forecastday'', JArr [])])]) ''location''
       = Inl (KeyError ''location'')
   \<and> extract_and_write env_unreachable (JObj [(''forecast'', JObj [(''forecastday'', JArr [])])])
        Forecast (initial_world [])
       = initial_world []"
  by (simp add: extract_and_write_def forecast_days_def and_then_def)

text \<open>
  C8, amended. For a payload with no day list (the lookup of the list raises, or what is
  there cannot be iterated), and for a payload with no location block and at least one
  day in the list, the transform fails as a whole: the call returns to its caller, and
  the world it returns is the one it was given with four error lines added to the log.
  No statement is sent to the database, for any day of the payload.
\<close>

theorem structural_failure_drops_payload:
  assumes "forecast_days data = Inl e1
         \<or> (forecast_days data = Inr (d # ds) \<and> getitem data ''location'' = Inl e2)"
  shows "\<exists>e. extract_and_write env data mode w =
     w\<lparr>trace := trace w @
        [Log ERROR (Error_extracting_writing mode e), Log ERROR (Exception_type e),
         Log ERROR (Exception_message e), Log ERROR (Stack_trace e)]\<rparr>"
  using assms
proof
  assume "forecast_days data = Inl e1"
  then have "extract_and_write env data mode w = except_Exception mode e1 w"
    by (simp add: extract_and_write_def)
  then show ?thesis by (auto simp: except_Exception_trace)
next
  assume a: "forecast_days data = Inr (d # ds) \<and> getitem data ''location'' = Inl e2"
  then obtain e where "build_row data mode d = Inl e"
    using build_row_needs_location by blast
  with a have "extract_and_write env data mode w = except_Exception mode e w"
    by (simp add: extract_and_write_def)
  then show ?thesis by (auto simp: except_Exception_trace)
qed

theorem structural_failure_drops_payload_witness:
  "table (extract_and_write env_unreachable
      (JObj [(''forecast'', JObj [(''forecastday'', JArr [day_block (JStr ''2024-05-10'') 10 20 60])])])
      Forecast (initial_world [])) = []
   \<and> (\<exists>e. extract_and_write env_unreachable
      (JObj [(''forecast'', JObj [(''forecastday'', JArr [day_block (JStr ''2024-05-10'') 10 20 60])])])
      Forecast (initial_world [])
     = (initial_world [])\<lparr>trace :=
        [Log ERROR (Error_extracting_writing Forecast e), Log ERROR (Exception_type e),
         Log ERROR (Exception_message e), Log ERROR (Stack_trace e)]\<rparr>)"
proof -
  let ?p = "JObj [(''forecast'', JObj [(''forecastday'', JArr [day_block (JStr ''2024-05-10'') 10 20 60])])]"
  have h: "forecast_days ?p = Inl TypeError
      \<or> (forecast_days ?p = Inr (day_block (JStr ''2024-05-10'') 10 20 60 # [])
          \<and> getitem ?p ''location'' = Inl (KeyError ''location''))"
    by (simp add: forecast_days_def and_then_def)
  from structural_failure_drops_payload [OF h, of env_unreachable Forecast "initial_world []"]
  obtain e where e: "extract_and_write env_unreachable ?p Forecast (initial_world [])
     = (initial_world [])\<lparr>trace := trace (initial_world []) @
        [Log ERROR (Error_extracting_writing Forecast e), Log ERROR (Exception_type e),
         Log ERROR (Exception_message e), Log ERROR (Stack_trace e)]\<rparr>"
    by blast
  have t: "trace (initial_world []) = []" "table (initial_world []) = []"
    by (simp_all add: initial_world_def)
  from e t have "table (extract_and_write env_unreachable ?p Forecast (initial_world [])) = []"
    by simp
  moreover from e t have "\<exists>e. extract_and_write env_unreachable ?p Forecast (initial_world [])
     = (initial_world [])\<lparr>trace :=
        [Log ERROR (Error_extracting_writing Forecast e), Log ERROR (Exception_type e),
         Log ERROR (Exception_message e), Log ERROR (Stack_trace e)]\<rparr>"
    by auto
  ultimately show ?thesis by blast
qed

lemma for_day_data_good:
  "map (build_row data mode) good = map Inr rows \<Longrightarrow>
   for_day_data env data mode (good @ days) w
     = for_day_data env data mode days (foldl (\<lambda>v r. insert_record env r v) w rows)"
proof (induction good arbitrary: rows w)
  case Nil
  then show ?case by simp
next
  case (Cons d good)
  then obtain r rs where rows: "rows = r # rs" "build_row data mode d = Inr r"
    "map (build_row data mode) good = map Inr rs"
    by (cases rows) auto
  with Cons.IH [OF rows(3)] show ?case by simp
qed

lemma foldl_insert_record_ok:
  assumes "\<forall>n. \<not> db_fault env n"
  shows "conn_open w \<Longrightarrow> cursor_open w \<Longrightarrow> map row_params rows = map Some recs \<Longrightarrow>
     conn_open (foldl (\<lambda>v r. insert_record env r v) w rows)
   \<and> cursor_open (foldl (\<lambda>v r. insert_record env r v) w rows)
   \<and> table (foldl (\<lambda>v r. insert_record env r v) w rows)
       = foldl (\<lambda>t s. fst (insert_on_duplicate_key_update t s)) (table w) recs
   \<and> durable (foldl (\<lambda>v r. insert_record env r v) w rows)
       = (if recs = [] then durable w
          else foldl (\<lambda>t s. fst (insert_on_duplicate_key_update t s)) (table w) recs)"
proof (induction rows arbitrary: recs w)
  case Nil
  then show ?case by simp
next
  case (Cons r rows)
  then obtain s ss where recs: "recs = s # ss" "row_params r = Some s"
    "map row_params rows = map Some ss"
    by (cases recs) auto
  let ?w1 = "insert_record env r w"
  have w1: "?w1 = w\<lparr>trace := trace w @ [Execute r, Commit,
          Log INFO ((if \<forall>x\<in>set (table w). \<not> duplicate_key s x then Successfully_wrote else Updated_existing)
                      (Location r) (Date r) (Type r))],
       db_calls := db_calls w + 2,
       table := fst (insert_on_duplicate_key_update (table w) s),
       durable := fst (insert_on_duplicate_key_update (table w) s)\<rparr>"
    using assms by (intro insert_record_ok Cons.prems recs(2)) simp_all
  have o: "conn_open ?w1" "cursor_open ?w1" using Cons.prems by (simp_all add: w1)
  have t: "table ?w1 = fst (insert_on_duplicate_key_update (table w) s)"
    and d: "durable ?w1 = fst (insert_on_duplicate_key_update (table w) s)"
    by (simp_all add: w1)
  from Cons.IH [OF o recs(3)] show ?case
    by (cases ss) (simp_all add: recs(1) t d)
qed



section \<open>What a run can do to the store\<close>

lemma store_trace [simp]: "store (w\<lparr>trace := t\<rparr>) = store w"
  by (simp add: store_def)

lemma store_http_calls [simp]: "store (w\<lparr>http_calls := n\<rparr>) = store w"
  by (simp add: store_def)

lemma store_emit [simp]: "store (emit e w) = store w"
  by (simp add: emit_def)

lemma store_logging [simp]: "store (logging l m w) = store w"
  by (simp add: logging_def)

lemma store_sleep [simp]: "store (sleep d w) = store w"
  by (simp add: sleep_def)

lemma store_exception_handling [simp]: "store (exception_handling e w) = store w"
  by (simp add: exception_handling_def)

lemma store_except_Exception [simp]: "store (except_Exception m e w) = store w"
  by (simp add: except_Exception_def)

lemma store_fetch_data_body [simp]: "store (snd (fetch_data_body env url w)) = store w"
  by (simp add: fetch_data_body_def requests_get_def Let_def split: reply.splits sum.splits)

lemma store_wrapper_loop:
  "(\<And>v. store (snd (func v)) = store v) \<Longrightarrow> store (snd (wrapper_loop func as d w)) = store w"
proof (induction as arbitrary: d w)
  case Nil
  then show ?case by simp
next
  case (Cons a as)
  obtain r v where f: "func w = (r, v)" by (cases "func w")
  with Cons.prems [of w] have v: "store v = store w" by simp
  show ?case
  proof (cases r)
    case (Inl e)
    with f v Cons.IH [OF Cons.prems] show ?thesis by simp
  next
    case (Inr j)
    with f v show ?thesis by simp
  qed
qed

lemma store_fetch_data [simp]: "store (snd (fetch_data env url w)) = store w"
  by (simp add: fetch_data_def retry_def store_wrapper_loop)

lemma store_insert_record_cong:
  "store w = store v \<Longrightarrow> store (insert_record env r w) = store (insert_record env r v)"
  by (auto simp: store_def insert_record_def cursor_execute_def conn_commit_def Let_def
      emit_def logging_def exception_handling_def split: option.splits prod.splits)

lemma writes_refl [simp]: "writes env w w"
  by (simp add: writes.same)

lemma writes_store_cong: "writes env w w1 \<Longrightarrow> store w2 = store w1 \<Longrightarrow> writes env w w2"
  by (induction rule: writes.induct) (auto intro: writes.intros)

lemma writes_trans: "writes env w1 w2 \<Longrightarrow> writes env w w1 \<Longrightarrow> writes env w w2"
proof (induction rule: writes.induct)
  case (same w')
  then show ?case using writes_store_cong by blast
next
  case (insert w1' w' r)
  then show ?case by (auto intro: writes.insert)
qed

lemma writes_insert_record: "writes env w (insert_record env r w)"
  by (rule writes.insert [OF writes_refl]) simp

lemma writes_for_day_data: "writes env w (snd (for_day_data env data mode days w))"
proof (induction days arbitrary: w)
  case Nil
  then show ?case by simp
next
  case (Cons d days)
  show ?case
  proof (cases "build_row data mode d")
    case (Inl e)
    then show ?thesis by simp
  next
    case (Inr r)
    with writes_trans [OF Cons.IH [of "insert_record env r w"] writes_insert_record]
    show ?thesis by simp
  qed
qed

lemma writes_extract_and_write: "writes env w (extract_and_write env data mode w)"
proof (cases "forecast_days data")
  case (Inl e)
  then show ?thesis by (simp add: extract_and_write_def writes.same)
next
  case (Inr days)
  obtain r v where f: "for_day_data env data mode days w = (r, v)"
    by (cases "for_day_data env data mode days w")
  with writes_for_day_data [of env w data mode days] have "writes env w v" by simp
  then have "writes env w (except_Exception mode e v)" for e
    by (rule writes_store_cong) simp
  with Inr f \<open>writes env w v\<close> show ?thesis
    by (simp add: extract_and_write_def split: option.splits)
qed

lemma writes_for_city_forecast: "writes env w (snd (for_city_forecast env cs w))"
proof (induction cs arbitrary: w)
  case Nil
  then show ?case by simp
next
  case (Cons c cs)
  let ?w0 = "logging INFO (Fetching_forecast c) w"
  obtain r v where f: "fetch_data env (build_forecast_url env c) ?w0 = (r, v)"
    by (cases "fetch_data env (build_forecast_url env c) ?w0")
  have "store v = store w"
    using store_fetch_data [of env "build_forecast_url env c" ?w0] f by simp
  then have wv: "writes env w v" by (rule writes.same)
  show ?case
  proof (cases r)
    case (Inl e)
    with f wv show ?thesis by simp
  next
    case (Inr data)
    let ?v' = "if truthy data then extract_and_write env data Forecast v else v"
    have "writes env v ?v'" by (simp add: writes_extract_and_write)
    then have "writes env w ?v'" using wv by (rule writes_trans)
    from writes_trans [OF Cons.IH [of ?v'] this] Inr f show ?thesis by simp
  qed
qed

lemma writes_for_city_history: "writes env w (snd (for_city_history env hdate cs w))"
proof (induction cs arbitrary: w)
  case Nil
  then show ?case by simp
next
  case (Cons c cs)
  let ?w0 = "logging INFO (Fetching_history c hdate) w"
  obtain r v where f: "fetch_data env (build_history_url env c hdate) ?w0 = (r, v)"
    by (cases "fetch_data env (build_history_url env c hdate) ?w0")
  have "store v = store w"
    using store_fetch_data [of env "build_history_url env c hdate" ?w0] f by simp
  then have wv: "writes env w v" by (rule writes.same)
  show ?case
  proof (cases r)
    case (Inl e)
    with f wv show ?thesis by simp
  next
    case (Inr data)
    let ?v' = "if truthy data then extract_and_write env data History v else v"
    have "writes env v ?v'" by (simp add: writes_extract_and_write)
    then have "writes env w ?v'" using wv by (rule writes_trans)
    from writes_trans [OF Cons.IH [of ?v'] this] Inr f show ?thesis by simp
  qed
qed

lemma writes_for_i_history: "writes env w (snd (for_i_history env d is w))"
proof (induction "is" arbitrary: w)
  case Nil
  then show ?case by simp
next
  case (Cons i "is")
  show ?case
  proof (cases "date_minus_days d i")
    case (Inl e)
    then show ?thesis by simp
  next
    case (Inr past)
    obtain r v where f: "for_city_history env (strftime_Ymd past) (cities env) w = (r, v)"
      by (cases "for_city_history env (strftime_Ymd past) (cities env) w")
    with writes_for_city_history [of env w "strftime_Ymd past" "cities env"]
    have wv: "writes env w v" by simp
    show ?thesis
    proof (cases r)
      case None
      with Inr f writes_trans [OF Cons.IH [of v] wv] show ?thesis by simp
    next
      case (Some e)
      with Inr f wv show ?thesis by simp
    qed
  qed
qed

lemma writes_run_forecast_etl: "writes env w (snd (run_forecast_etl env w))"
  by (simp add: run_forecast_etl_def writes_for_city_forecast)

lemma writes_run_history_etl: "writes env w (snd (run_history_etl env w))"
  unfolding run_history_etl_def by (rule writes_for_i_history)

lemma start_closes: "\<exists>w1. writes env w w1 \<and> snd (start env w) = close_connection w1"
proof -
  obtain r v where f: "run_forecast_etl env w = (r, v)" by (cases "run_forecast_etl env w")
  with writes_run_forecast_etl [of env w] have wv: "writes env w v" by simp
  show ?thesis
  proof (cases r)
    case (Some e)
    with f wv show ?thesis by (auto simp: start_def)
  next
    case None
    obtain r' v' where h: "run_history_etl env v = (r', v')" by (cases "run_history_etl env v")
    with writes_run_history_etl [of env v] have "writes env v v'" by simp
    then have "writes env w v'" using wv by (rule writes_trans)
    with None f h show ?thesis by (auto simp: start_def)
  qed
qed

lemma insert_record_flags:
  "conn_open (insert_record env r w) = conn_open w \<and> cursor_open (insert_record env r w) = cursor_open w"
  by (auto simp: insert_record_def cursor_execute_def conn_commit_def Let_def
      emit_def logging_def exception_handling_def split: option.splits prod.splits)

lemma insert_record_table:
  "table (insert_record env r w) = table w
   \<or> (\<exists>new. table (insert_record env r w) = fst (insert_on_duplicate_key_update (table w) new))"
proof (cases "\<not> (conn_open w \<and> cursor_open w) \<or> db_fault env (db_calls w) \<or> row_params r = None")
  case True
  then have "table (insert_record env r w) = table w"
    by (auto simp: insert_record_def cursor_execute_def Let_def
        emit_def logging_def exception_handling_def)
  then show ?thesis by simp
next
  case False
  then obtain new where n: "row_params r = Some new" by auto
  obtain tbl k where i: "insert_on_duplicate_key_update (table w) new = (tbl, k)"
    by (cases "insert_on_duplicate_key_update (table w) new")
  from False n i have "table (insert_record env r w) = tbl"
    by (auto simp: insert_record_def cursor_execute_def conn_commit_def Let_def
        emit_def logging_def exception_handling_def)
  with i have "table (insert_record env r w) = fst (insert_on_duplicate_key_update (table w) new)"
    by simp
  then show ?thesis by blast
qed

lemma insert_record_durable:
  "durable (insert_record env r w) = durable w
   \<or> durable (insert_record env r w) = table (insert_record env r w)"
  by (auto simp: insert_record_def cursor_execute_def conn_commit_def Let_def
      emit_def logging_def exception_handling_def split: option.splits prod.splits)

lemma insert_record_committed:
  "conn_open w \<Longrightarrow> cursor_open w \<Longrightarrow> \<forall>n. \<not> db_fault env n \<Longrightarrow> durable w = table w \<Longrightarrow>
   durable (insert_record env r w) = table (insert_record env r w)"
  by (auto simp: insert_record_def cursor_execute_def conn_commit_def Let_def
      emit_def logging_def exception_handling_def split: option.splits prod.splits)

lemma writes_flags:
  "writes env w w' \<Longrightarrow> conn_open w' = conn_open w \<and> cursor_open w' = cursor_open w"
proof (induction rule: writes.induct)
  case (same w')
  then show ?case by (simp add: store_def)
next
  case (insert w1 w' r)
  then show ?case using insert_record_flags [of env r w1] by (simp add: store_def)
qed

lemma keys_iodku: "key ` set tbl \<subseteq> key ` set (fst (insert_on_duplicate_key_update tbl new))"
  by (auto simp: iodku_cases image_iff)

lemma writes_keys: "writes env w w' \<Longrightarrow> key ` set (table w) \<subseteq> key ` set (table w')"
proof (induction rule: writes.induct)
  case (same w')
  then show ?case by (simp add: store_def)
next
  case (insert w1 w' r)
  from insert.hyps(2) have t: "table w' = table (insert_record env r w1)" by (simp add: store_def)
  have "key ` set (table w1) \<subseteq> key ` set (table (insert_record env r w1))"
    using insert_record_table [of env r w1] keys_iodku [of "table w1"] by (elim disjE exE) simp_all
  with insert.IH t show ?case by simp
qed

lemma writes_committed:
  "writes env w w' \<Longrightarrow> conn_open w \<Longrightarrow> cursor_open w \<Longrightarrow> \<forall>n. \<not> db_fault env n \<Longrightarrow>
   durable w = table w \<Longrightarrow> durable w' = table w'"
proof (induction rule: writes.induct)
  case (same w')
  then show ?case by (simp add: store_def)
next
  case (insert w1 w' r)
  from insert.hyps(1) have "conn_open w1" "cursor_open w1"
    using writes_flags insert.prems by blast+
  from insert_record_committed [OF this insert.prems(3)] insert.IH insert.prems
  have "durable (insert_record env r w1) = table (insert_record env r w1)" by simp
  with insert.hyps(2) show ?case by (simp add: store_def)
qed

lemma key_unique_iodku:
  "key_unique tbl \<Longrightarrow> key_unique (fst (insert_on_duplicate_key_update tbl new))"
proof -
  assume u: "key_unique tbl"
  have m: "map key (filter keyed (map (upd new) tbl)) = map key (filter keyed tbl)"
    by (induction tbl) auto
  show ?thesis
  proof (cases "\<exists>r\<in>set tbl. duplicate_key new r")
    case True
    with u m show ?thesis by (simp add: iodku_cases key_unique_def)
  next
    case False
    with u show ?thesis by (auto simp: iodku_cases key_unique_def duplicate_key_iff)
  qed
qed

lemma writes_key_unique:
  "writes env w w' \<Longrightarrow> key_unique (table w) \<Longrightarrow> key_unique (durable w) \<Longrightarrow>
   key_unique (table w') \<and> key_unique (durable w')"
proof (induction rule: writes.induct)
  case (same w')
  then show ?case by (simp add: store_def)
next
  case (insert w1 w' r)
  then have u: "key_unique (table w1)" "key_unique (durable w1)" by simp_all
  from insert_record_table [of env r w1] u(1) key_unique_iodku
  have t: "key_unique (table (insert_record env r w1))" by auto
  with insert_record_durable [of env r w1] u(2)
  have "key_unique (durable (insert_record env r w1))" by auto
  with t insert.hyps(2) show ?case by (simp add: store_def)
qed

lemma key_unique_nth:
  "key_unique tbl \<Longrightarrow> i < j \<Longrightarrow> j < length tbl \<Longrightarrow> key (tbl ! i) = key (tbl ! j) \<Longrightarrow>
   \<not> keyed (tbl ! i)"
proof (induction tbl arbitrary: i j)
  case Nil
  then show ?case by simp
next
  case (Cons a tbl)
  from Cons.prems(2) obtain j' where j: "j = Suc j'" by (cases j) auto
  with Cons.prems(3) have j'len: "j' < length tbl" by simp
  have u: "key_unique tbl" using Cons.prems(1) by (auto simp: key_unique_def split: if_splits)
  show ?case
  proof (cases i)
    case 0
    show ?thesis
    proof
      assume "keyed ((a # tbl) ! i)"
      with 0 have ka: "keyed a" by simp
      from Cons.prems(4) 0 j have e: "key a = key (tbl ! j')" by simp
      with ka have "keyed (tbl ! j')" using keyed_cong by blast
      with j'len have "key (tbl ! j') \<in> set (map key (filter keyed tbl))" by simp
      with Cons.prems(1) ka e show False by (simp add: key_unique_def)
    qed
  next
    case (Suc i')
    with Cons.prems j have "i' < j'" "key (tbl ! i') = key (tbl ! j')" by simp_all
    from Cons.IH [OF u this(1) j'len this(2)] Suc show ?thesis by simp
  qed
qed

lemma reachable_key_unique: "reachable w \<Longrightarrow> key_unique (table w) \<and> key_unique (durable w)"
proof (induction rule: reachable.induct)
  case created
  then show ?case by (simp add: initial_world_def key_unique_def)
next
  case (inserted w env r)
  with writes_key_unique [OF writes_insert_record] show ?case by blast
next
  case (extracted w env data mode)
  with writes_key_unique [OF writes_extract_and_write] show ?case by blast
next
  case (ran w env)
  from start_closes [of env w] obtain w1 where
    w1: "writes env w w1" "snd (start env w) = close_connection w1" by blast
  from writes_key_unique [OF w1(1)] ran.IH w1(2) show ?case
    by (simp add: close_connection_def)
next
  case (reconnected w)
  then show ?case by (simp add: initial_world_def)
qed

lemmas json_eval = extract_and_write_def forecast_days_def build_row_def and_then_def
  except_Exception_def payload_def day_block_def stored_def

text \<open>
  C6, as stated, fails: the key columns are nullable and a \<open>NULL\<close> never collides, so a
  payload whose day blocks carry no date leaves two rows with the same triple.
\<close>

theorem null_dates_stored_twice:
  "table (extract_and_write env_unreachable
       (payload ''Paris'' ''France'' [day_block JNull 10 20 60, day_block JNull 11 21 61])
       Forecast (initial_world []))
   = [stored Null ''Paris'' ''France'' 10 20 60 ''FORECAST'',
      stored Null ''Paris'' ''France'' 11 21 61 ''FORECAST'']
   \<and> key (stored Null ''Paris'' ''France'' 10 20 60 ''FORECAST'')
     = key (stored Null ''Paris'' ''France'' 11 21 61 ''FORECAST'')"
  by (simp add: json_eval store_eval env_unreachable_def key_def)

text \<open>
  C6, amended. In every world that the pipeline can bring about, two different rows of
  the table with the same (date, location, type) have a \<open>NULL\<close> in it: among the rows
  whose three key columns are all set, no two share the triple. The same holds of the
  table as committed.
\<close>

theorem key_uniqueness:
  assumes "reachable w"
  shows "(\<forall>i j. i < j \<and> j < length (table w) \<and> (keyed (table w ! i) \<or> keyed (table w ! j))
            \<longrightarrow> key (table w ! i) \<noteq> key (table w ! j))
       \<and> (\<forall>i j. i < j \<and> j < length (durable w) \<and> (keyed (durable w ! i) \<or> keyed (durable w ! j))
            \<longrightarrow> key (durable w ! i) \<noteq> key (durable w ! j))"
  using reachable_key_unique [OF assms] key_unique_nth keyed_cong by metis

theorem key_uniqueness_witness:
  "table (insert_record env_unreachable (a_row (JStr ''2024-05-01'') ''Tokyo'' ''Japan'' 11 23 61 ''FORECAST'')
      (insert_record env_unreachable (a_row (JStr ''2024-05-01'') ''Paris'' ''France'' 10 20 60 ''FORECAST'')
        (initial_world [])))
     = [stored (Str ''2024-05-01'') ''Paris'' ''France'' 10 20 60 ''FORECAST'',
        stored (Str ''2024-05-01'') ''Tokyo'' ''Japan'' 11 23 61 ''FORECAST'']
   \<and> keyed (stored (Str ''2024-05-01'') ''Paris'' ''France'' 10 20 60 ''FORECAST'')
   \<and> key (stored (Str ''2024-05-01'') ''Paris'' ''France'' 10 20 60 ''FORECAST'')
       \<noteq> key (stored (Str ''2024-05-01'') ''Tokyo'' ''Japan'' 11 23 61 ''FORECAST'')"
proof -
  let ?w = "insert_record env_unreachable (a_row (JStr ''2024-05-01'') ''Tokyo'' ''Japan'' 11 23 61 ''FORECAST'')
      (insert_record env_unreachable (a_row (JStr ''2024-05-01'') ''Paris'' ''France'' 10 20 60 ''FORECAST'')
        (initial_world []))"
  have r: "reachable ?w" by (intro reachable.inserted reachable.created)
  have t: "table ?w = [stored (Str ''2024-05-01'') ''Paris'' ''France'' 10 20 60 ''FORECAST'',
        stored (Str ''2024-05-01'') ''Tokyo'' ''Japan'' 11 23 61 ''FORECAST'']"
    by (simp add: store_eval env_unreachable_def a_row_def stored_def)
  have k: "keyed (stored (Str ''2024-05-01'') ''Paris'' ''France'' 10 20 60 ''FORECAST'')"
    by (simp add: keyed_def stored_def)
  from key_uniqueness [OF r] have
    "(0::nat) < 1 \<and> 1 < length (table ?w) \<and> (keyed (table ?w ! 0) \<or> keyed (table ?w ! 1))
       \<longrightarrow> key (table ?w ! 0) \<noteq> key (table ?w ! 1)"
    by blast
  with t k show ?thesis by simp
qed

section \<open>The requests and the units of a pass\<close>

lemma http_gets_append [simp]: "http_gets (a @ b) = http_gets a @ http_gets b"
  by (induction a rule: http_gets.induct) auto

lemma quiet_refl [simp]: "quiet w w"
  by (simp add: quiet_def)

lemma quiet_trans: "quiet w w1 \<Longrightarrow> quiet w1 w2 \<Longrightarrow> quiet w w2"
  by (auto simp: quiet_def)

lemma quiet_logging [simp]: "quiet w (logging l m w)"
  by (simp add: quiet_def logging_def emit_def)

lemma quiet_exception_handling [simp]: "quiet w (exception_handling e w)"
  by (simp add: quiet_def exception_handling_def logging_def emit_def)

lemma quiet_except_Exception [simp]: "quiet w (except_Exception m e w)"
  by (simp add: quiet_def except_Exception_def exception_handling_def logging_def emit_def)

lemma quiet_insert_record [simp]: "quiet w (insert_record env r w)"
  by (auto simp: quiet_def insert_record_def cursor_execute_def conn_commit_def Let_def
      emit_def logging_def exception_handling_def split: option.splits prod.splits)

lemma quiet_for_day_data: "quiet w (snd (for_day_data env data mode days w))"
proof (induction days arbitrary: w)
  case Nil
  then show ?case by simp
next
  case (Cons d days)
  show ?case
  proof (cases "build_row data mode d")
    case (Inl e)
    then show ?thesis by simp
  next
    case (Inr r)
    with quiet_trans [OF quiet_insert_record Cons.IH [of "insert_record env r w"]]
    show ?thesis by simp
  qed
qed

lemma quiet_extract_and_write [simp]: "quiet w (extract_and_write env data mode w)"
proof (cases "forecast_days data")
  case (Inl e)
  then show ?thesis by (simp add: extract_and_write_def)
next
  case (Inr days)
  obtain r v where f: "for_day_data env data mode days w = (r, v)"
    by (cases "for_day_data env data mode days w")
  with quiet_for_day_data [of w env data mode days] have q: "quiet w v" by simp
  then have "quiet w (except_Exception mode e v)" for e
    using quiet_trans quiet_except_Exception by blast
  with Inr f q show ?thesis
    by (simp add: extract_and_write_def split: option.splits)
qed

lemma fetch_data_body_trace:
  "fetch_data_body env url w = (r, w') \<Longrightarrow> trace w' = trace w @ [HttpGet url]"
  by (auto simp: fetch_data_body_def requests_get_def Let_def emit_def
      split: reply.splits sum.splits)

lemma wrapper_loop_requests:
  assumes "\<And>v r v'. func v = (r, v') \<Longrightarrow> trace v' = trace v @ [HttpGet url]"
  shows "wrapper_loop func as d w = (r, w') \<Longrightarrow>
     \<exists>tr. trace w' = trace w @ tr \<and> set (http_gets tr) \<subseteq> {url}
        \<and> (as \<noteq> [] \<longrightarrow> url \<in> set (http_gets tr))"
proof (induction as arbitrary: d w)
  case Nil
  then show ?case by (auto simp: logging_def emit_def)
next
  case (Cons a as)
  obtain x v where f: "func w = (x, v)" by (cases "func w")
  from assms [OF f] have tv: "trace v = trace w @ [HttpGet url]" .
  show ?case
  proof (cases x)
    case (Inr j)
    with f Cons.prems tv show ?thesis by auto
  next
    case (Inl e)
    show ?thesis
    proof (cases "retried e")
      case False
      with Inl f Cons.prems tv show ?thesis by auto
    next
      case True
      let ?v = "sleep d (logging WARNING (Retrying a e d) v)"
      from True Inl f Cons.prems have "wrapper_loop func as (d * 2) ?v = (r, w')" by simp
      from Cons.IH [OF this] obtain tr where
        tr: "trace w' = trace ?v @ tr" "set (http_gets tr) \<subseteq> {url}" by blast
      have "trace ?v = trace w @ [HttpGet url, Log WARNING (Retrying a e d), Sleep d]"
        by (simp add: tv sleep_def logging_def emit_def)
      with tr have "trace w' = trace w @ ([HttpGet url, Log WARNING (Retrying a e d), Sleep d] @ tr)"
        by simp
      moreover have "set (http_gets ([HttpGet url, Log WARNING (Retrying a e d), Sleep d] @ tr)) \<subseteq> {url}"
        "url \<in> set (http_gets ([HttpGet url, Log WARNING (Retrying a e d), Sleep d] @ tr))"
        using tr(2) by auto
      ultimately show ?thesis by blast
    qed
  qed
qed

lemma fetch_data_requests:
  "fetch_data env url w = (r, w') \<Longrightarrow>
   \<exists>tr. trace w' = trace w @ tr \<and> set (http_gets tr) = {url}"
proof -
  assume a: "fetch_data env url w = (r, w')"
  then have "wrapper_loop (fetch_data_body env url) [1..<4] 2 w = (r, w')"
    by (simp add: fetch_data_def retry_def)
  moreover have "\<And>v r v'. fetch_data_body env url v = (r, v') \<Longrightarrow> trace v' = trace v @ [HttpGet url]"
    by (rule fetch_data_body_trace)
  ultimately obtain tr where "trace w' = trace w @ tr" "set (http_gets tr) \<subseteq> {url}"
    "url \<in> set (http_gets tr)"
    using wrapper_loop_requests [of "fetch_data_body env url" url "[1..<4]" 2 w r w'] by auto
  then show ?thesis by blast
qed

lemma fetch_data_body_nonfatal:
  "nonfatal (net env (http_calls w) url) \<Longrightarrow> fetch_data_body env url w = (Inl e, w') \<Longrightarrow> retried e"
  by (auto simp: fetch_data_body_def requests_get_def Let_def raise_for_status_def response_json_def
      split: reply.splits if_splits option.splits)

lemma wrapper_loop_no_raise:
  assumes "\<And>v e v'. func v = (Inl e, v') \<Longrightarrow> retried e"
  shows "\<exists>j. fst (wrapper_loop func as d w) = Inr j"
proof (induction as arbitrary: d w)
  case Nil
  then show ?case by simp
next
  case (Cons a as)
  obtain x v where f: "func w = (x, v)" by (cases "func w")
  show ?case
  proof (cases x)
    case (Inr j)
    with f show ?thesis by simp
  next
    case (Inl e)
    with f assms have "retried e" by blast
    with Inl f Cons.IH show ?thesis by simp
  qed
qed

lemma fetch_data_no_raise:
  "\<forall>n url. nonfatal (net env n url) \<Longrightarrow> \<exists>j. fst (fetch_data env url w) = Inr j"
  unfolding fetch_data_def retry_def
  by (rule wrapper_loop_no_raise) (use fetch_data_body_nonfatal in blast)

lemma fetch_data_ok:
  "net env (http_calls w) url = Response 200 (Some p) \<Longrightarrow>
   fetch_data env url w =
     (Inr p, w\<lparr>trace := trace w @ [HttpGet url], http_calls := Suc (http_calls w)\<rparr>)"
  by (simp add: fetch_data_def retry_def fetch_data_body_def requests_get_def Let_def
      raise_for_status_def response_json_def emit_def upt_rec)

lemma fetch_data_undecodable:
  "net env (http_calls w) url = Response 200 None \<Longrightarrow>
   fetch_data env url w =
     (Inl JSONDecodeError, w\<lparr>trace := trace w @ [HttpGet url], http_calls := Suc (http_calls w)\<rparr>)"
  by (simp add: fetch_data_def retry_def fetch_data_body_def requests_get_def Let_def
      raise_for_status_def response_json_def emit_def upt_rec)

lemma for_city_forecast_units:
  "for_city_forecast env cs w
     = for_units env Forecast (map (\<lambda>city. (Fetching_forecast city, build_forecast_url env city)) cs) w"
  by (induction cs arbitrary: w) (auto split: prod.splits sum.splits)

lemma for_city_history_units:
  "for_city_history env hdate cs w
     = for_units env History
         (map (\<lambda>city. (Fetching_history city hdate, build_history_url env city hdate)) cs) w"
  by (induction cs arbitrary: w) (auto split: prod.splits sum.splits)

lemma for_units_append:
  "for_units env mode (us @ vs) w =
     (case for_units env mode us w of
        (None, w') \<Rightarrow> for_units env mode vs w'
      | (Some e, w') \<Rightarrow> (Some e, w'))"
  by (induction us arbitrary: w) (auto split: prod.splits sum.splits option.splits)

lemma for_units_no_raise:
  assumes "\<forall>n url. nonfatal (net env n url)"
  shows "fst (for_units env mode us w) = None"
proof (induction us arbitrary: w)
  case Nil
  then show ?case by simp
next
  case (Cons u us)
  obtain msg url where u: "u = (msg, url)" by (cases u)
  obtain x v where f: "fetch_data env url (logging INFO msg w) = (x, v)"
    by (cases "fetch_data env url (logging INFO msg w)")
  with fetch_data_no_raise [OF assms, of url "logging INFO msg w"]
  obtain j where "x = Inr j" by auto
  with u f Cons.IH show ?case by simp
qed

lemma for_units_requests:
  "for_units env mode us w = (r, w') \<Longrightarrow>
   \<exists>tr. trace w' = trace w @ tr \<and> set (http_gets tr) \<subseteq> snd ` set us
      \<and> (r = None \<longrightarrow> set (http_gets tr) = snd ` set us)"
proof (induction us arbitrary: w)
  case Nil
  then show ?case by auto
next
  case (Cons u us)
  obtain msg url where u: "u = (msg, url)" by (cases u)
  let ?w0 = "logging INFO msg w"
  obtain x v where f: "fetch_data env url ?w0 = (x, v)"
    by (cases "fetch_data env url ?w0")
  from fetch_data_requests [OF f] obtain t1 where
    t1: "trace v = trace ?w0 @ t1" "set (http_gets t1) = {url}" by blast
  have w0: "trace ?w0 = trace w @ [Log INFO msg]" by (simp add: logging_def emit_def)
  show ?case
  proof (cases x)
    case (Inl e)
    with u f Cons.prems have "r = Some e" "w' = v" by simp_all
    with t1 w0 have "trace w' = trace w @ (Log INFO msg # t1)"
      "set (http_gets (Log INFO msg # t1)) \<subseteq> snd ` set (u # us)"
      by (simp_all add: u)
    with \<open>r = Some e\<close> show ?thesis by blast
  next
    case (Inr data)
    let ?v' = "if truthy data then extract_and_write env data mode v else v"
    have "quiet v ?v'" by simp
    then obtain t2 where t2: "trace ?v' = trace v @ t2" "http_gets t2 = []"
      by (auto simp: quiet_def)
    from Inr u f Cons.prems have "for_units env mode us ?v' = (r, w')" by simp
    from Cons.IH [OF this] obtain t3 where
      t3: "trace w' = trace ?v' @ t3" "set (http_gets t3) \<subseteq> snd ` set us"
        "r = None \<longrightarrow> set (http_gets t3) = snd ` set us" by blast
    let ?tr = "Log INFO msg # t1 @ t2 @ t3"
    have "trace w' = trace w @ ?tr" using t1(1) t2(1) t3(1) w0 by simp
    moreover have "set (http_gets ?tr) = {url} \<union> set (http_gets t3)"
      using t1(2) t2(2) by simp
    ultimately show ?thesis using t3(2,3) by (intro exI [of _ ?tr]) (auto simp: u)
  qed
qed

lemma writes_for_units: "writes env w (snd (for_units env mode us w))"
proof (induction us arbitrary: w)
  case Nil
  then show ?case by simp
next
  case (Cons u us)
  obtain msg url where u: "u = (msg, url)" by (cases u)
  let ?w0 = "logging INFO msg w"
  obtain x v where f: "fetch_data env url ?w0 = (x, v)"
    by (cases "fetch_data env url ?w0")
  have "store v = store w"
    using store_fetch_data [of env url ?w0] f by simp
  then have wv: "writes env w v" by (rule writes.same)
  show ?case
  proof (cases x)
    case (Inl e)
    with u f wv show ?thesis by simp
  next
    case (Inr data)
    let ?v' = "if truthy data then extract_and_write env data mode v else v"
    have "writes env v ?v'" by (simp add: writes_extract_and_write)
    then have "writes env w ?v'" using wv by (rule writes_trans)
    from writes_trans [OF Cons.IH [of ?v'] this] Inr u f show ?thesis by simp
  qed
qed

lemma key_in_iodku: "key s \<in> key ` set (fst (insert_on_duplicate_key_update tbl s))"
proof (cases "\<exists>r\<in>set tbl. duplicate_key s r")
  case True
  then obtain r where r: "r \<in> set tbl" "key r = key s" by (auto simp: duplicate_key_iff)
  then have "key (upd s r) = key s" by simp
  moreover from r(1) have "upd s r \<in> set (map (upd s) tbl)" by simp
  ultimately have "key s \<in> key ` set (map (upd s) tbl)" by (metis imageI)
  with True show ?thesis by (simp add: iodku_cases)
next
  case False
  then show ?thesis by (simp add: iodku_cases)
qed

lemma keys_foldl_iodku:
  "key ` set tbl \<union> key ` set recs
     \<subseteq> key ` set (foldl (\<lambda>t s. fst (insert_on_duplicate_key_update t s)) tbl recs)"
proof (induction recs arbitrary: tbl)
  case Nil
  then show ?case by simp
next
  case (Cons s recs)
  from Cons.IH [of "fst (insert_on_duplicate_key_update tbl s)"]
    keys_iodku [of tbl s] key_in_iodku [of s tbl]
  show ?case by auto
qed

lemma extract_and_write_good:
  assumes "forecast_days p = Inr days" and "map (build_row p mode) days = map Inr rows"
  shows "extract_and_write env p mode w = foldl (\<lambda>v r. insert_record env r v) w rows"
  using assms(1) for_day_data_good [OF assms(2), of env "[]" w]
  by (simp add: extract_and_write_def)

lemma for_units_stores:
  assumes nofault: "\<forall>n. \<not> db_fault env n"
      and nonfatal: "\<forall>n url. nonfatal (net env n url)"
      and reply: "\<forall>n. net env n url = Response 200 (Some p)"
      and p: "truthy p" "forecast_days p = Inr days" "map (build_row p mode) days = map Inr rows"
        "map row_params rows = map Some recs"
  shows "(msg, url) \<in> set us \<Longrightarrow> conn_open w \<Longrightarrow> cursor_open w \<Longrightarrow> durable w = table w \<Longrightarrow>
     key ` set recs \<subseteq> key ` set (table (snd (for_units env mode us w)))"
proof (induction us arbitrary: w)
  case Nil
  then show ?case by simp
next
  case (Cons u us)
  obtain msg' url' where u: "u = (msg', url')" by (cases u)
  let ?w0 = "logging INFO msg' w"
  obtain x v where f: "fetch_data env url' ?w0 = (x, v)"
    by (cases "fetch_data env url' ?w0")
  with fetch_data_no_raise [OF nonfatal, of url' ?w0]
  obtain data where x: "x = Inr data" by auto
  have sv: "store v = store w"
    using store_fetch_data [of env url' ?w0] f by simp
  with Cons.prems have jv: "conn_open v" "cursor_open v" "durable v = table v"
    by (simp_all add: store_def)
  let ?v' = "if truthy data then extract_and_write env data mode v else v"
  have wr: "writes env v ?v'" by (simp add: writes_extract_and_write)
  from writes_flags [OF wr] jv writes_committed [OF wr jv(1,2) nofault jv(3)]
  have jv': "conn_open ?v'" "cursor_open ?v'" "durable ?v' = table ?v'" by simp_all
  have rest: "snd (for_units env mode (u # us) w) = snd (for_units env mode us ?v')"
    using u f x by simp
  show ?case
  proof (cases "url' = url")
    case True
    with reply have "net env (http_calls ?w0) url' = Response 200 (Some p)" by simp
    from fetch_data_ok [OF this] f x have "data = p" by simp
    with p(1) extract_and_write_good [OF p(2,3), of env v]
    have v': "?v' = foldl (\<lambda>v r. insert_record env r v) v rows" by simp
    from foldl_insert_record_ok [OF nofault jv(1,2) p(4)]
    have "table ?v' = foldl (\<lambda>t s. fst (insert_on_duplicate_key_update t s)) (table v) recs"
      unfolding v' by simp
    with keys_foldl_iodku [of "table v" recs]
    have "key ` set recs \<subseteq> key ` set (table ?v')" by simp
    with writes_keys [OF writes_for_units [of env ?v' mode us]] rest
    show ?thesis by auto
  next
    case False
    with Cons.prems(1) u have "(msg, url) \<in> set us" by auto
    from Cons.IH [OF this jv'] rest show ?thesis by simp
  qed
qed

lemma date_minus_days_Inr:
  "date_minus_days d i = Inr past \<Longrightarrow> past = ord2ymd (toordinal d - i)"
  by (auto simp: date_minus_days_def Let_def split: if_splits)

lemma date_minus_days_in_range:
  "3 < toordinal d \<Longrightarrow> toordinal d \<le> MAXORDINAL \<Longrightarrow> 1 \<le> i \<Longrightarrow> i \<le> 3 \<Longrightarrow>
   date_minus_days d i = Inr (ord2ymd (toordinal d - i))"
  by (simp add: date_minus_days_def Let_def)

lemma trace_new_events: "trace w' = trace w @ tr \<Longrightarrow> new_events w w' = tr"
  by (simp add: new_events_def)

lemma history_urls_Cons:
  "set (history_urls env (i # days_back))
     = (\<lambda>city. build_history_url env city (strftime_Ymd (ord2ymd (toordinal (today env) - i))))
         ` set (cities env) \<union> set (history_urls env days_back)"
  by (simp add: history_urls_def)

lemma for_i_history_requests:
  "for_i_history env (today env) days_back w = (r, w') \<Longrightarrow>
   \<exists>tr. trace w' = trace w @ tr \<and> set (http_gets tr) \<subseteq> set (history_urls env days_back)
      \<and> (r = None \<longrightarrow> set (http_gets tr) = set (history_urls env days_back))"
proof (induction days_back arbitrary: w)
  case Nil
  then show ?case by (auto simp: history_urls_def)
next
  case (Cons i days_back)
  show ?case
  proof (cases "date_minus_days (today env) i")
    case (Inl e)
    with Cons.prems have "r = Some e" "w' = w" by simp_all
    then show ?thesis by auto
  next
    case (Inr past)
    let ?hd = "strftime_Ymd (ord2ymd (toordinal (today env) - i))"
    let ?us = "map (\<lambda>city. (Fetching_history city ?hd, build_history_url env city ?hd)) (cities env)"
    have past: "strftime_Ymd past = ?hd" using date_minus_days_Inr [OF Inr] by simp
    obtain x v where f: "for_units env History ?us w = (x, v)"
      by (cases "for_units env History ?us w")
    from for_units_requests [OF f] obtain t1 where
      t1: "trace v = trace w @ t1" "set (http_gets t1) \<subseteq> snd ` set ?us"
        "x = None \<longrightarrow> set (http_gets t1) = snd ` set ?us" by blast
    have us: "snd ` set ?us = (\<lambda>city. build_history_url env city ?hd) ` set (cities env)"
      by (auto simp: image_iff)
    show ?thesis
    proof (cases x)
      case (Some e)
      with Inr f past Cons.prems have "r = Some e" "w' = v"
        by (simp_all add: for_city_history_units)
      with t1 us show ?thesis by (auto simp: history_urls_Cons)
    next
      case None
      with Inr f past Cons.prems have "for_i_history env (today env) days_back v = (r, w')"
        by (simp add: for_city_history_units)
      from Cons.IH [OF this] obtain t2 where
        t2: "trace w' = trace v @ t2" "set (http_gets t2) \<subseteq> set (history_urls env days_back)"
          "r = None \<longrightarrow> set (http_gets t2) = set (history_urls env days_back)" by blast
      have "trace w' = trace w @ (t1 @ t2)" using t1(1) t2(1) by simp
      moreover have "set (http_gets (t1 @ t2)) \<subseteq> set (history_urls env (i # days_back))"
        using t1(2) t2(2) us by (auto simp: history_urls_Cons)
      moreover have "r = None \<longrightarrow> set (http_gets (t1 @ t2)) = set (history_urls env (i # days_back))"
        using t1(3) t2(3) us None by (auto simp: history_urls_Cons)
      ultimately show ?thesis by blast
    qed
  qed
qed

lemma for_i_history_units:
  "\<forall>i\<in>set days_back. date_minus_days d i = Inr (ord2ymd (toordinal d - i)) \<Longrightarrow>
   for_i_history env d days_back w
     = for_units env History
         (concat (map (\<lambda>i. history_units env (strftime_Ymd (ord2ymd (toordinal d - i)))) days_back)) w"
proof (induction days_back arbitrary: w)
  case Nil
  then show ?case by simp
next
  case (Cons i days_back)
  then show ?case
    by (auto simp: for_units_append for_city_history_units history_units_def
        split: prod.splits option.splits)
qed

lemma run_history_etl_units:
  assumes "3 < toordinal (today env)" and "toordinal (today env) \<le> MAXORDINAL"
  shows "run_history_etl env w
     = for_units env History
         (concat (map (\<lambda>i. history_units env (strftime_Ymd (ord2ymd (toordinal (today env) - i))))
            [1, 2, 3])) w"
  unfolding run_history_etl_def
  by (rule for_i_history_units) (simp add: date_minus_days_in_range assms)

lemmas date_eval = date_minus_days_def toordinal_def ymd2ord_def days_before_year_def
  days_before_month_def DAYS_BEFORE_MONTH_def DAYS_IN_MONTH_def is_leap_def MAXORDINAL_def
  ord2ymd_def DI400Y_def DI100Y_def DI4Y_def strftime_Ymd_def digit_def Let_def

lemmas url_eval = build_forecast_url_def build_history_url_def BASE_WEATHER_API_URL_def
  urlencode_def quote_plus_def quote_char_def always_safe_def hex_def

text \<open>
  C7, as stated, fails: the history pass has no handler, and \<open>fetch_data\<close> lets out every
  exception that is not in the tuple of \<^verbatim>\<open>retry\<close>. On 2024-05-10, with two cities, when the
  first request is answered 200 with a body that is not JSON, the pass ends there: it has
  asked for one of the six URLs of the three days and two cities.
\<close>

theorem undecodable_body_ends_the_history_pass:
  "fst (run_history_etl env_two_cities_html (initial_world [])) = Some JSONDecodeError
   \<and> http_gets (new_events (initial_world [])
         (snd (run_history_etl env_two_cities_html (initial_world []))))
     = [''http://api.weatherapi.com/v1/history.json?key=k&q=Paris&dt=2024-05-09'']
   \<and> history_urls env_two_cities_html [1, 2, 3]
     = [''http://api.weatherapi.com/v1/history.json?key=k&q=Paris&dt=2024-05-09'',
        ''http://api.weatherapi.com/v1/history.json?key=k&q=Tokyo&dt=2024-05-09'',
        ''http://api.weatherapi.com/v1/history.json?key=k&q=Paris&dt=2024-05-08'',
        ''http://api.weatherapi.com/v1/history.json?key=k&q=Tokyo&dt=2024-05-08'',
        ''http://api.weatherapi.com/v1/history.json?key=k&q=Paris&dt=2024-05-07'',
        ''http://api.weatherapi.com/v1/history.json?key=k&q=Tokyo&dt=2024-05-07'']"
proof -
  let ?e = "env_two_cities_html"
  let ?u = "''http://api.weatherapi.com/v1/history.json?key=k&q=Paris&dt=2024-05-09''"
  let ?w1 = "logging INFO (Fetching_history ''Paris'' ''2024-05-09'') (initial_world [])"
  let ?w2 = "?w1\<lparr>trace := trace ?w1 @ [HttpGet ?u], http_calls := Suc (http_calls ?w1)\<rparr>"
  have c: "cities ?e = [''Paris'', ''Tokyo'']" "api_key ?e = ''k''"
    by (simp_all add: env_two_cities_html_def env_with_def)
  have m: "date_minus_days (today ?e) 1 = Inr (ord2ymd (toordinal (today ?e) - 1))"
    by (rule date_minus_days_in_range) (simp_all add: env_two_cities_html_def env_with_def date_eval)
  have d: "strftime_Ymd (ord2ymd (toordinal (today ?e) - 1)) = ''2024-05-09''"
    "strftime_Ymd (ord2ymd (toordinal (today ?e) - 2)) = ''2024-05-08''"
    "strftime_Ymd (ord2ymd (toordinal (today ?e) - 3)) = ''2024-05-07''"
    by (simp_all add: env_two_cities_html_def env_with_def date_eval)
  have u: "build_history_url ?e ''Paris'' ''2024-05-09'' = ?u"
    by (simp add: c url_eval)
  have f: "fetch_data ?e ?u ?w1 = (Inl JSONDecodeError, ?w2)"
    by (rule fetch_data_undecodable) (simp add: env_two_cities_html_def env_with_def)
  have r: "run_history_etl ?e (initial_world []) = (Some JSONDecodeError, ?w2)"
    by (simp add: run_history_etl_def m d c u f)
  have h: "history_urls ?e [1, 2, 3]
     = [''http://api.weatherapi.com/v1/history.json?key=k&q=Paris&dt=2024-05-09'',
        ''http://api.weatherapi.com/v1/history.json?key=k&q=Tokyo&dt=2024-05-09'',
        ''http://api.weatherapi.com/v1/history.json?key=k&q=Paris&dt=2024-05-08'',
        ''http://api.weatherapi.com/v1/history.json?key=k&q=Tokyo&dt=2024-05-08'',
        ''http://api.weatherapi.com/v1/history.json?key=k&q=Paris&dt=2024-05-07'',
        ''http://api.weatherapi.com/v1/history.json?key=k&q=Tokyo&dt=2024-05-07'']"
    unfolding history_urls_def by (simp add: d c url_eval)
  show ?thesis
    unfolding r by (simp add: h new_events_def logging_def emit_def initial_world_def)
qed

text \<open>
  C7, amended. Whatever the history pass does, every request it makes is for one of the
  history URLs of the configured cities for the dates one, two and three days before the
  date the pass starts with; a pass that ends normally has asked for every one of them;
  and the pass ends normally when no reply is fatal to \<open>fetch_data\<close> (each is an exception
  of the retry tuple, an error status, or a body that parses) and the date is later than
  0001-01-03.
\<close>

theorem history_pass_requests:
  "set (http_gets (new_events w (snd (run_history_etl env w)))) \<subseteq> set (history_urls env [1, 2, 3])
   \<and> (fst (run_history_etl env w) = None \<longrightarrow>
        set (http_gets (new_events w (snd (run_history_etl env w)))) = set (history_urls env [1, 2, 3]))
   \<and> ((\<forall>n url. nonfatal (net env n url)) \<and> 3 < toordinal (today env)
        \<and> toordinal (today env) \<le> MAXORDINAL \<longrightarrow> fst (run_history_etl env w) = None)"
proof -
  obtain r w' where f: "run_history_etl env w = (r, w')" by (cases "run_history_etl env w")
  then have "for_i_history env (today env) [1, 2, 3] w = (r, w')" by (simp add: run_history_etl_def)
  from for_i_history_requests [OF this] obtain tr where
    tr: "trace w' = trace w @ tr" "set (http_gets tr) \<subseteq> set (history_urls env [1, 2, 3])"
      "r = None \<longrightarrow> set (http_gets tr) = set (history_urls env [1, 2, 3])" by blast
  from trace_new_events [OF tr(1)] have n: "new_events w w' = tr" .
  have "fst (run_history_etl env w) = None"
    if "\<forall>n url. nonfatal (net env n url)" "3 < toordinal (today env)" "toordinal (today env) \<le> MAXORDINAL"
    using that for_units_no_raise run_history_etl_units by simp
  with f n tr show ?thesis by auto
qed

theorem history_pass_requests_witness:
  "fst (run_history_etl env_two_cities (initial_world [])) = None
   \<and> set (http_gets (new_events (initial_world [])
            (snd (run_history_etl env_two_cities (initial_world [])))))
     = {''http://api.weatherapi.com/v1/history.json?key=k&q=Paris&dt=2024-05-09'',
        ''http://api.weatherapi.com/v1/history.json?key=k&q=Tokyo&dt=2024-05-09'',
        ''http://api.weatherapi.com/v1/history.json?key=k&q=Paris&dt=2024-05-08'',
        ''http://api.weatherapi.com/v1/history.json?key=k&q=Tokyo&dt=2024-05-08'',
        ''http://api.weatherapi.com/v1/history.json?key=k&q=Paris&dt=2024-05-07'',
        ''http://api.weatherapi.com/v1/history.json?key=k&q=Tokyo&dt=2024-05-07''}"
proof -
  have h: "(\<forall>n url. nonfatal (net env_two_cities n url)) \<and> 3 < toordinal (today env_two_cities)
        \<and> toordinal (today env_two_cities) \<le> MAXORDINAL"
    by (simp add: env_two_cities_def env_with_def date_eval)
  have d: "strftime_Ymd (ord2ymd (toordinal (today env_two_cities) - 1)) = ''2024-05-09''"
    "strftime_Ymd (ord2ymd (toordinal (today env_two_cities) - 2)) = ''2024-05-08''"
    "strftime_Ymd (ord2ymd (toordinal (today env_two_cities) - 3)) = ''2024-05-07''"
    by (simp_all add: env_two_cities_def env_with_def date_eval)
  have c: "cities env_two_cities = [''Paris'', ''Tokyo'']" "api_key env_two_cities = ''k''"
    by (simp_all add: env_two_cities_def env_with_def)
  have u: "history_urls env_two_cities [1, 2, 3]
     = [''http://api.weatherapi.com/v1/history.json?key=k&q=Paris&dt=2024-05-09'',
        ''http://api.weatherapi.com/v1/history.json?key=k&q=Tokyo&dt=2024-05-09'',
        ''http://api.weatherapi.com/v1/history.json?key=k&q=Paris&dt=2024-05-08'',
        ''http://api.weatherapi.com/v1/history.json?key=k&q=Tokyo&dt=2024-05-08'',
        ''http://api.weatherapi.com/v1/history.json?key=k&q=Paris&dt=2024-05-07'',
        ''http://api.weatherapi.com/v1/history.json?key=k&q=Tokyo&dt=2024-05-07'']"
    unfolding history_urls_def by (simp add: d c url_eval)
  note th = history_pass_requests [of "initial_world []" env_two_cities]
  from th h have n: "fst (run_history_etl env_two_cities (initial_world [])) = None" by blast
  with th have "set (http_gets (new_events (initial_world [])
            (snd (run_history_etl env_two_cities (initial_world [])))))
      = set (history_urls env_two_cities [1, 2, 3])" by blast
  with n u show ?thesis by simp
qed

section \<open>Isolation of units\<close>

lemma snd_forecast_units: "snd ` set (forecast_units env) = build_forecast_url env ` set (cities env)"
  by (auto simp: forecast_units_def image_iff)

lemma snd_all_history_units: "snd ` set (all_history_units env) = set (history_urls env [1, 2, 3])"
proof -
  have "map snd (all_history_units env) = history_urls env [1, 2, 3]"
    by (simp add: all_history_units_def history_units_def history_urls_def o_def)
  then have "set (map snd (all_history_units env)) = set (history_urls env [1, 2, 3])" by simp
  then show ?thesis by simp
qed

lemma in_snd_image: "url \<in> snd ` set us \<Longrightarrow> \<exists>msg. (msg, url) \<in> set us"
  by force

lemma run_forecast_etl_units:
  "run_forecast_etl env w = for_units env Forecast (forecast_units env) w"
  by (simp add: run_forecast_etl_def forecast_units_def for_city_forecast_units)

lemma start_units:
  assumes "\<forall>n url. nonfatal (net env n url)"
      and "3 < toordinal (today env)" and "toordinal (today env) \<le> MAXORDINAL"
  shows "start env w =
     (None, close_connection
        (snd (for_units env History (all_history_units env)
           (snd (for_units env Forecast (forecast_units env) w)))))"
proof -
  obtain w1 where f: "for_units env Forecast (forecast_units env) w = (None, w1)"
    using for_units_no_raise [OF assms(1), of Forecast "forecast_units env" w]
    by (cases "for_units env Forecast (forecast_units env) w") auto
  obtain w2 where h: "for_units env History (all_history_units env) w1 = (None, w2)"
    using for_units_no_raise [OF assms(1), of History "all_history_units env" w1]
    by (cases "for_units env History (all_history_units env) w1") auto
  have "run_history_etl env w1 = (None, w2)"
    using run_history_etl_units [OF assms(2,3), of w1] h by (simp add: all_history_units_def)
  with f h show ?thesis by (simp add: start_def run_forecast_etl_units)
qed

lemma env_three_urls:
  "build_forecast_url (env_three a) ''Paris''
     = ''http://api.weatherapi.com/v1/forecast.json?key=k&q=Paris&days=3&aqi=yes&alerts=no''"
  "build_forecast_url (env_three a) ''Atlantis''
     = ''http://api.weatherapi.com/v1/forecast.json?key=k&q=Atlantis&days=3&aqi=yes&alerts=no''"
  "build_forecast_url (env_three a) ''Tokyo''
     = ''http://api.weatherapi.com/v1/forecast.json?key=k&q=Tokyo&days=3&aqi=yes&alerts=no''"
  by (simp_all add: env_three_def env_with_def url_eval)

lemma env_three_net:
  "net (env_three a) n ''http://api.weatherapi.com/v1/forecast.json?key=k&q=Paris&days=3&aqi=yes&alerts=no''
     = Response 200 (Some (payload ''Paris'' ''France'' [day_block (JStr ''2024-05-10'') 10 20 60]))"
  "net (env_three a) n ''http://api.weatherapi.com/v1/forecast.json?key=k&q=Atlantis&days=3&aqi=yes&alerts=no''
     = a"
  "net (env_three a) n ''http://api.weatherapi.com/v1/forecast.json?key=k&q=Tokyo&days=3&aqi=yes&alerts=no''
     = Response 200 (Some (payload ''Tokyo'' ''Japan'' [day_block (JStr ''2024-05-10'') 15 25 70]))"
  by (simp_all add: env_three_def env_with_def)

lemma env_three_fields:
  "cities (env_three a) = [''Paris'', ''Atlantis'', ''Tokyo'']"
  "db_fault (env_three a) n = False"
  by (simp_all add: env_three_def env_with_def)

lemma extract_paris:
  "conn_open w \<Longrightarrow> cursor_open w \<Longrightarrow>
   extract_and_write (env_three a)
     (payload ''Paris'' ''France'' [day_block (JStr ''2024-05-10'') 10 20 60]) Forecast w
   = insert_record (env_three a) (a_row (JStr ''2024-05-10'') ''Paris'' ''France'' 10 20 60 ''FORECAST'') w"
  by (simp add: extract_and_write_def forecast_days_def build_row_def and_then_def payload_def
      day_block_def a_row_def)

text \<open>
  The run with three cities in which the request for the second is answered 200 with a
  body that is not JSON: the exception leaves \<open>start\<close>, after \<open>close_connection\<close>.
\<close>

lemma start_undecodable:
  "start (env_three (Response 200 None)) (initial_world [])
   = (Some JSONDecodeError,
      close_connection
        (emit (HttpGet ''http://api.weatherapi.com/v1/forecast.json?key=k&q=Atlantis&days=3&aqi=yes&alerts=no'')
           (logging INFO (Fetching_forecast ''Atlantis'')
              (insert_record (env_three (Response 200 None))
                 (a_row (JStr ''2024-05-10'') ''Paris'' ''France'' 10 20 60 ''FORECAST'')
                 (emit (HttpGet ''http://api.weatherapi.com/v1/forecast.json?key=k&q=Paris&days=3&aqi=yes&alerts=no'')
                    (logging INFO (Fetching_forecast ''Paris'') (initial_world []))
                  \<lparr>http_calls := 1\<rparr>)))
         \<lparr>http_calls := 2\<rparr>))"
proof -
  let ?e = "env_three (Response 200 None)"
  let ?w1 = "logging INFO (Fetching_forecast ''Paris'') (initial_world [])"
  let ?w2 = "?w1\<lparr>trace := trace ?w1 @ [HttpGet ''http://api.weatherapi.com/v1/forecast.json?key=k&q=Paris&days=3&aqi=yes&alerts=no''],
                  http_calls := Suc (http_calls ?w1)\<rparr>"
  let ?w3 = "insert_record ?e (a_row (JStr ''2024-05-10'') ''Paris'' ''France'' 10 20 60 ''FORECAST'') ?w2"
  let ?w4 = "logging INFO (Fetching_forecast ''Atlantis'') ?w3"
  let ?w5 = "?w4\<lparr>trace := trace ?w4 @ [HttpGet ''http://api.weatherapi.com/v1/forecast.json?key=k&q=Atlantis&days=3&aqi=yes&alerts=no''],
                  http_calls := Suc (http_calls ?w4)\<rparr>"
  have f1: "fetch_data ?e ''http://api.weatherapi.com/v1/forecast.json?key=k&q=Paris&days=3&aqi=yes&alerts=no'' ?w1
      = (Inr (payload ''Paris'' ''France'' [day_block (JStr ''2024-05-10'') 10 20 60]), ?w2)"
    by (rule fetch_data_ok) (simp add: env_three_net)
  have o2: "conn_open ?w2" "cursor_open ?w2" by (simp_all add: logging_def emit_def initial_world_def)
  have f2: "fetch_data ?e ''http://api.weatherapi.com/v1/forecast.json?key=k&q=Atlantis&days=3&aqi=yes&alerts=no'' ?w4
      = (Inl JSONDecodeError, ?w5)"
    by (rule fetch_data_undecodable) (simp add: env_three_net)
  have t: "truthy (payload ''Paris'' ''France'' [day_block (JStr ''2024-05-10'') 10 20 60])"
    by (simp add: payload_def)
  have s: "start ?e (initial_world []) = (Some JSONDecodeError, close_connection ?w5)"
    by (simp add: start_def run_forecast_etl_def env_three_fields env_three_urls f1 f2 t
        extract_paris [OF o2])
  show ?thesis
    unfolding s
    by (simp add: close_connection_def store_eval a_row_def stored_def env_three_def)
qed

text \<open>
  C3, as stated, fails: \<open>fetch_data\<close> lets out every exception that is not in the tuple
  of \<^verbatim>\<open>retry\<close>, and neither pass catches it. With three cities, when the request for the
  second is answered 200 with a body that is not JSON, the run ends there: the third city
  is never requested and only the first has a record.
\<close>

theorem undecodable_body_ends_the_run:
  "fst (start (env_three (Response 200 None)) (initial_world [])) = Some JSONDecodeError
   \<and> http_gets (trace (snd (start (env_three (Response 200 None)) (initial_world []))))
     = [''http://api.weatherapi.com/v1/forecast.json?key=k&q=Paris&days=3&aqi=yes&alerts=no'',
        ''http://api.weatherapi.com/v1/forecast.json?key=k&q=Atlantis&days=3&aqi=yes&alerts=no'']
   \<and> durable (snd (start (env_three (Response 200 None)) (initial_world [])))
     = [stored (Str ''2024-05-10'') ''Paris'' ''France'' 10 20 60 ''FORECAST'']"
  unfolding start_undecodable
  by (simp add: close_connection_def store_eval a_row_def stored_def env_three_def)

text \<open>
  C3, amended. In a run in which no reply is fatal to \<open>fetch_data\<close> (each is an exception
  of the retry tuple, an error status, or a body that parses), the failure of a unit, in
  the fetch or in the transform, stops nothing: the run ends normally, the requests made
  are for exactly the forecast URL of every city and the history URL of every city and
  day, and every unit whose request is answered 200 with a payload from whose days rows
  can be built and converted has the keys of its records in the committed table at the
  end, whatever happened to the other units, provided the database fails no call. (The
  date of the run is taken to be later than 0001-01-03, so that the three days before it
  exist.)
\<close>

theorem unit_isolation:
  assumes "\<forall>n url. nonfatal (net env n url)"
      and "3 < toordinal (today env)" and "toordinal (today env) \<le> MAXORDINAL"
  shows "fst (start env (initial_world tbl)) = None
       \<and> set (http_gets (trace (snd (start env (initial_world tbl)))))
           = build_forecast_url env ` set (cities env) \<union> set (history_urls env [1, 2, 3])
       \<and> (\<forall>mode url p days rows recs.
             (mode = Forecast \<and> url \<in> build_forecast_url env ` set (cities env)
                \<or> mode = History \<and> url \<in> set (history_urls env [1, 2, 3]))
             \<and> (\<forall>n. net env n url = Response 200 (Some p)) \<and> truthy p
             \<and> forecast_days p = Inr days \<and> map (build_row p mode) days = map Inr rows
             \<and> map row_params rows = map Some recs \<and> (\<forall>n. \<not> db_fault env n)
             \<longrightarrow> key ` set recs \<subseteq> key ` set (durable (snd (start env (initial_world tbl)))))"
proof -
  let ?w = "initial_world tbl"
  let ?w1 = "snd (for_units env Forecast (forecast_units env) ?w)"
  let ?w2 = "snd (for_units env History (all_history_units env) ?w1)"
  note st = start_units [OF assms, of ?w]
  have a: "fst (start env ?w) = None" by (simp add: st)
  have r1: "fst (for_units env Forecast (forecast_units env) ?w) = None"
    and r2: "fst (for_units env History (all_history_units env) ?w1) = None"
    using for_units_no_raise [OF assms(1)] by blast+
  from for_units_requests [of env Forecast "forecast_units env" ?w None ?w1] r1
  obtain t1 where t1: "trace ?w1 = trace ?w @ t1" "set (http_gets t1) = snd ` set (forecast_units env)"
    by (metis prod.collapse)
  from for_units_requests [of env History "all_history_units env" ?w1 None ?w2] r2
  obtain t2 where t2: "trace ?w2 = trace ?w1 @ t2" "set (http_gets t2) = snd ` set (all_history_units env)"
    by (metis prod.collapse)
  have tw: "trace ?w = []" by (simp add: initial_world_def)
  have "trace (snd (start env ?w)) = trace ?w2" by (simp add: st close_connection_def)
  also have "\<dots> = t1 @ t2" by (simp add: t2(1) t1(1) tw)
  finally have "trace (snd (start env ?w)) = t1 @ t2" .
  then have b: "set (http_gets (trace (snd (start env ?w))))
           = build_forecast_url env ` set (cities env) \<union> set (history_urls env [1, 2, 3])"
    using t1(2) t2(2) by (simp add: snd_forecast_units snd_all_history_units)
  have w0: "conn_open ?w" "cursor_open ?w" "durable ?w = table ?w"
    by (simp_all add: initial_world_def)
  have wr1: "writes env ?w ?w1" by (rule writes_for_units)
  have wr2: "writes env ?w1 ?w2" by (rule writes_for_units)
  have c: "key ` set recs \<subseteq> key ` set (durable (snd (start env ?w)))"
    if u: "mode = Forecast \<and> url \<in> build_forecast_url env ` set (cities env)
                \<or> mode = History \<and> url \<in> set (history_urls env [1, 2, 3])"
      and reply: "\<forall>n. net env n url = Response 200 (Some p)"
      and p: "truthy p" "forecast_days p = Inr days" "map (build_row p mode) days = map Inr rows"
        "map row_params rows = map Some recs"
      and nofault: "\<forall>n. \<not> db_fault env n"
    for mode url p days rows recs
  proof -
    have j1: "conn_open ?w1" "cursor_open ?w1" "durable ?w1 = table ?w1"
      using writes_flags [OF wr1] writes_committed [OF wr1 w0(1,2) nofault w0(3)] w0 by simp_all
    have d2: "durable ?w2 = table ?w2"
      by (rule writes_committed [OF wr2 j1(1,2) nofault j1(3)])
    have "key ` set recs \<subseteq> key ` set (table ?w2)"
      using u
    proof
      assume m: "mode = Forecast \<and> url \<in> build_forecast_url env ` set (cities env)"
      then obtain msg where "(msg, url) \<in> set (forecast_units env)"
        using snd_forecast_units [of env] in_snd_image [of url "forecast_units env"] by auto
      from for_units_stores [OF nofault assms(1) reply p this w0] m
      have "key ` set recs \<subseteq> key ` set (table ?w1)" by simp
      with writes_keys [OF wr2] show ?thesis by blast
    next
      assume m: "mode = History \<and> url \<in> set (history_urls env [1, 2, 3])"
      then obtain msg where "(msg, url) \<in> set (all_history_units env)"
        using snd_all_history_units [of env] in_snd_image [of url "all_history_units env"] by auto
      from for_units_stores [OF nofault assms(1) reply p this j1] m
      show ?thesis by simp
    qed
    with d2 show ?thesis by (simp add: st close_connection_def)
  qed
  from a b c show ?thesis by blast
qed

theorem unit_isolation_witness:
  "fst (start (env_three (Response 400 None)) (initial_world [])) = None
   \<and> key (stored (Str ''2024-05-10'') ''Paris'' ''France'' 10 20 60 ''FORECAST'')
       \<in> key ` set (durable (snd (start (env_three (Response 400 None)) (initial_world []))))
   \<and> key (stored (Str ''2024-05-10'') ''Tokyo'' ''Japan'' 15 25 70 ''FORECAST'')
       \<in> key ` set (durable (snd (start (env_three (Response 400 None)) (initial_world []))))"
proof -
  let ?e = "env_three (Response 400 None)"
  have h1: "\<forall>n url. nonfatal (net ?e n url)"
    by (simp add: env_three_def env_with_def)
  have h2: "3 < toordinal (today ?e)" and h3: "toordinal (today ?e) \<le> MAXORDINAL"
    by (simp_all add: env_three_def env_with_def date_eval)
  note th = unit_isolation [OF h1 h2 h3, of "[]"]
  from th have a: "fst (start ?e (initial_world [])) = None" by (rule conjunct1)
  from th have c: "\<forall>mode url p days rows recs.
             (mode = Forecast \<and> url \<in> build_forecast_url ?e ` set (cities ?e)
                \<or> mode = History \<and> url \<in> set (history_urls ?e [1, 2, 3]))
             \<and> (\<forall>n. net ?e n url = Response 200 (Some p)) \<and> truthy p
             \<and> forecast_days p = Inr days \<and> map (build_row p mode) days = map Inr rows
             \<and> map row_params rows = map Some recs \<and> (\<forall>n. \<not> db_fault ?e n)
             \<longrightarrow> key ` set recs \<subseteq> key ` set (durable (snd (start ?e (initial_world []))))"
    by blast
  have paris: "(Forecast = Forecast
        \<and> ''http://api.weatherapi.com/v1/forecast.json?key=k&q=Paris&days=3&aqi=yes&alerts=no''
            \<in> build_forecast_url ?e ` set (cities ?e)
        \<or> Forecast = History
        \<and> ''http://api.weatherapi.com/v1/forecast.json?key=k&q=Paris&days=3&aqi=yes&alerts=no''
            \<in> set (history_urls ?e [1, 2, 3]))
     \<and> (\<forall>n. net ?e n ''http://api.weatherapi.com/v1/forecast.json?key=k&q=Paris&days=3&aqi=yes&alerts=no''
            = Response 200 (Some (payload ''Paris'' ''France'' [day_block (JStr ''2024-05-10'') 10 20 60])))
     \<and> truthy (payload ''Paris'' ''France'' [day_block (JStr ''2024-05-10'') 10 20 60])
     \<and> forecast_days (payload ''Paris'' ''France'' [day_block (JStr ''2024-05-10'') 10 20 60])
          = Inr [day_block (JStr ''2024-05-10'') 10 20 60]
     \<and> map (build_row (payload ''Paris'' ''France'' [day_block (JStr ''2024-05-10'') 10 20 60]) Forecast)
            [day_block (JStr ''2024-05-10'') 10 20 60]
          = map Inr [a_row (JStr ''2024-05-10'') ''Paris'' ''France'' 10 20 60 ''FORECAST'']
     \<and> map row_params [a_row (JStr ''2024-05-10'') ''Paris'' ''France'' 10 20 60 ''FORECAST'']
          = map Some [stored (Str ''2024-05-10'') ''Paris'' ''France'' 10 20 60 ''FORECAST'']
     \<and> (\<forall>n. \<not> db_fault ?e n)"
    by (simp add: env_three_fields env_three_urls env_three_net forecast_days_def build_row_def
        and_then_def payload_def day_block_def a_row_def stored_def row_params_def)
  have tokyo: "(Forecast = Forecast
        \<and> ''http://api.weatherapi.com/v1/forecast.json?key=k&q=Tokyo&days=3&aqi=yes&alerts=no''
            \<in> build_forecast_url ?e ` set (cities ?e)
        \<or> Forecast = History
        \<and> ''http://api.weatherapi.com/v1/forecast.json?key=k&q=Tokyo&days=3&aqi=yes&alerts=no''
            \<in> set (history_urls ?e [1, 2, 3]))
     \<and> (\<forall>n. net ?e n ''http://api.weatherapi.com/v1/forecast.json?key=k&q=Tokyo&days=3&aqi=yes&alerts=no''
            = Response 200 (Some (payload ''Tokyo'' ''Japan'' [day_block (JStr ''2024-05-10'') 15 25 70])))
     \<and> truthy (payload ''Tokyo'' ''Japan'' [day_block (JStr ''2024-05-10'') 15 25 70])
     \<and> forecast_days (payload ''Tokyo'' ''Japan'' [day_block (JStr ''2024-05-10'') 15 25 70])
          = Inr [day_block (JStr ''2024-05-10'') 15 25 70]
     \<and> map (build_row (payload ''Tokyo'' ''Japan'' [day_block (JStr ''2024-05-10'') 15 25 70]) Forecast)
            [day_block (JStr ''2024-05-10'') 15 25 70]
          = map Inr [a_row (JStr ''2024-05-10'') ''Tokyo'' ''Japan'' 15 25 70 ''FORECAST'']
     \<and> map row_params [a_row (JStr ''2024-05-10'') ''Tokyo'' ''Japan'' 15 25 70 ''FORECAST'']
          = map Some [stored (Str ''2024-05-10'') ''Tokyo'' ''Japan'' 15 25 70 ''FORECAST'']
     \<and> (\<forall>n. \<not> db_fault ?e n)"
    by (simp add: env_three_fields env_three_urls env_three_net forecast_days_def build_row_def
        and_then_def payload_def day_block_def a_row_def stored_def row_params_def)
  from c [rule_format, OF paris] c [rule_format, OF tokyo] a show ?thesis by simp
qed

section \<open>The connection\<close>

text \<open>
  C9. However the two passes end, normally or by an exception raised at any point of the
  forecast or the history pass, \<open>start\<close> ends with the cursor and the connection closed.
\<close>

theorem start_releases_connection:
  "(case start env w of (r, w') \<Rightarrow> \<not> conn_open w' \<and> \<not> cursor_open w')"
  by (simp add: start_def close_connection_def split: prod.splits option.splits)

theorem start_releases_connection_witness:
  "fst (start (env_three (Response 200 None)) (initial_world [])) = Some JSONDecodeError
   \<and> \<not> conn_open (snd (start (env_three (Response 200 None)) (initial_world [])))
   \<and> \<not> cursor_open (snd (start (env_three (Response 200 None)) (initial_world [])))"
proof -
  have "fst (start (env_three (Response 200 None)) (initial_world [])) = Some JSONDecodeError"
    by (simp add: start_undecodable)
  with start_releases_connection [of "env_three (Response 200 None)" "initial_world []"]
  show ?thesis by (simp add: case_prod_beta)
qed

end
